theory Spec2Isabelle
  imports Complex_Main "HOL-Library.Word" "HOL-Library.Char_ord" "HOL-Library.List_Lexorder"
    "HOL-Library.Log_Nat"
begin

section \<open>IEEE-754 doubles\<close>

text \<open>
  The C++ type \<open>double\<close>. A finite value carries the real number it stands for; the three
  special values are explicit, because the code under study tests for them
  (\<open>std::isinf\<close>) and because comparisons with a NaN are false. A finite result whose
  magnitude exceeds \<open>DBL_MAX\<close> overflows to the infinity of its sign. The rounding of
  finite results to 53 significant bits and the sign of zero are not modelled.
\<close>

datatype dbl = Fin real | PInf | NInf | NaN

definition DBL_MAX :: real where
  "DBL_MAX = 2 ^ 1024 - 2 ^ 971"

definition dbl_of_real :: "real \<Rightarrow> dbl" where
  "dbl_of_real r = (if DBL_MAX < r then PInf else if r < - DBL_MAX then NInf else Fin r)"

text \<open>\<open>a < b\<close> on doubles: false as soon as one side is a NaN.\<close>

fun dlt :: "dbl \<Rightarrow> dbl \<Rightarrow> bool" where
  "dlt NaN _ = False"
| "dlt _ NaN = False"
| "dlt (Fin a) (Fin b) = (a < b)"
| "dlt (Fin _) PInf = True"
| "dlt (Fin _) NInf = False"
| "dlt PInf _ = False"
| "dlt NInf NInf = False"
| "dlt NInf _ = True"

text \<open>\<open>std::max(a, b)\<close> is \<open>(a < b) ? b : a\<close> and \<open>std::min(a, b)\<close> is \<open>(b < a) ? b : a\<close>.\<close>

definition dmax :: "dbl \<Rightarrow> dbl \<Rightarrow> dbl" where
  "dmax a b = (if dlt a b then b else a)"

definition dmin :: "dbl \<Rightarrow> dbl \<Rightarrow> dbl" where
  "dmin a b = (if dlt b a then b else a)"

fun isinf :: "dbl \<Rightarrow> bool" where
  "isinf PInf = True"
| "isinf NInf = True"
| "isinf _ = False"

fun dneg :: "dbl \<Rightarrow> dbl" where
  "dneg (Fin a) = Fin (- a)"
| "dneg PInf = NInf"
| "dneg NInf = PInf"
| "dneg NaN = NaN"

fun dmul :: "dbl \<Rightarrow> dbl \<Rightarrow> dbl" where
  "dmul NaN _ = NaN"
| "dmul _ NaN = NaN"
| "dmul (Fin a) (Fin b) = dbl_of_real (a * b)"
| "dmul (Fin a) PInf = (if a = 0 then NaN else if 0 < a then PInf else NInf)"
| "dmul (Fin a) NInf = (if a = 0 then NaN else if 0 < a then NInf else PInf)"
| "dmul PInf (Fin b) = (if b = 0 then NaN else if 0 < b then PInf else NInf)"
| "dmul NInf (Fin b) = (if b = 0 then NaN else if 0 < b then NInf else PInf)"
| "dmul PInf PInf = PInf"
| "dmul PInf NInf = NInf"
| "dmul NInf PInf = NInf"
| "dmul NInf NInf = PInf"

fun ddiv :: "dbl \<Rightarrow> dbl \<Rightarrow> dbl" where
  "ddiv NaN _ = NaN"
| "ddiv _ NaN = NaN"
| "ddiv (Fin a) (Fin b) =
     (if b = 0 then (if a = 0 then NaN else if 0 < a then PInf else NInf)
      else dbl_of_real (a / b))"
| "ddiv (Fin _) PInf = Fin 0"
| "ddiv (Fin _) NInf = Fin 0"
| "ddiv PInf (Fin b) = (if 0 \<le> b then PInf else NInf)"
| "ddiv NInf (Fin b) = (if 0 \<le> b then NInf else PInf)"
| "ddiv PInf _ = NaN"
| "ddiv NInf _ = NaN"

fun dadd :: "dbl \<Rightarrow> dbl \<Rightarrow> dbl" where
  "dadd NaN _ = NaN"
| "dadd _ NaN = NaN"
| "dadd (Fin a) (Fin b) = dbl_of_real (a + b)"
| "dadd (Fin _) PInf = PInf"
| "dadd (Fin _) NInf = NInf"
| "dadd PInf NInf = NaN"
| "dadd NInf PInf = NaN"
| "dadd PInf _ = PInf"
| "dadd NInf _ = NInf"

text \<open>\<open>std::pow(b, n)\<close> for a finite base and a non-negative integral exponent.\<close>

definition dpow :: "real \<Rightarrow> nat \<Rightarrow> dbl" where
  "dpow b n = dbl_of_real (b ^ n)"

text \<open>\<open>std::sin\<close>: a NaN outside the finite values.\<close>

fun dsin :: "dbl \<Rightarrow> dbl" where
  "dsin (Fin a) = Fin (sin a)"
| "dsin _ = NaN"

text \<open>The conversion of a \<open>uint64_t\<close> to \<open>double\<close>.\<close>

definition dbl_of_u64 :: "64 word \<Rightarrow> dbl" where
  "dbl_of_u64 w = Fin (real (unat w))"

lemma DBL_MAX_pos: "0 < DBL_MAX"
  by (simp add: DBL_MAX_def)

lemma dbl_of_real_in_range: "\<bar>r\<bar> \<le> DBL_MAX \<Longrightarrow> dbl_of_real r = Fin r"
  by (auto simp: dbl_of_real_def)

lemma two_pow_le_DBL_MAX: "k < 1024 \<Longrightarrow> (2::real) ^ k \<le> DBL_MAX"
proof -
  assume "k < 1024"
  then have "k \<le> 1023" by simp
  then have "(2::real) ^ k \<le> 2 ^ 1023" by (intro power_increasing) simp_all
  also have "(2::real) ^ 1023 \<le> DBL_MAX" by (simp add: DBL_MAX_def)
  finally show ?thesis .
qed


section \<open>IEEE-754 doubles: rounding\<close>

text \<open>
  The operations above compute a finite result exactly. Where a result below depends on
  the rounding, the operations of this section are used: round to nearest, ties to even,
  in binary64, with 53 significant bits and the least normal exponent \<open>-1022\<close>.
  \<open>rne\<close> rounds a real to the nearest integer, a tie to the even one;
  \<open>ilog2 x\<close> is the exponent \<open>e\<close> with \<open>2\<^sup>e \<le> x < 2\<^sup>e\<^sup>+\<^sup>1\<close> of a positive \<open>x\<close>;
  \<open>round_dbl x\<close> is the multiple of the unit in the last place of \<open>x\<close> nearest to \<open>x\<close>.
\<close>

definition rne :: "real \<Rightarrow> int" where
  "rne y =
     (let f = \<lfloor>y\<rfloor>; d = y - of_int f
      in if d < 1 / 2 then f else if 1 / 2 < d then f + 1 else if even f then f else f + 1)"

definition ilog2 :: "real \<Rightarrow> int" where
  "ilog2 x = (if 1 \<le> x then bitlen \<lfloor>x\<rfloor> - 1 else - bitlen (\<lceil>1 / x\<rceil> - 1))"

definition round_dbl :: "real \<Rightarrow> real" where
  "round_dbl x =
     (if x = 0 then 0
      else let e = max (ilog2 \<bar>x\<bar>) (- 1022); ulp = 2 powi (e - 52)
           in of_int (rne (x / ulp)) * ulp)"

lemma rne_of_int [simp]: "rne (of_int n) = n"
  by (simp add: rne_def)

lemma rne_cases: "rne y = \<lfloor>y\<rfloor> \<or> rne y = \<lfloor>y\<rfloor> + 1"
  by (simp add: rne_def Let_def)

lemma rne_ge: "of_int a \<le> y \<Longrightarrow> a \<le> rne y"
proof -
  assume "of_int a \<le> y"
  then have "a \<le> \<lfloor>y\<rfloor>" by (simp add: le_floor_iff)
  then show ?thesis using rne_cases [of y] by linarith
qed

lemma rne_le: "y \<le> of_int b \<Longrightarrow> rne y \<le> b"
proof (cases "y = of_int b")
  case True
  then show ?thesis by simp
next
  case False
  assume "y \<le> of_int b"
  with False have "y < of_int b" by simp
  then have "\<lfloor>y\<rfloor> < b" by (simp add: floor_less_iff)
  then show ?thesis using rne_cases [of y] by linarith
qed

lemma rne_near: "\<bar>of_int (rne y) - y\<bar> \<le> 1 / 2"
proof -
  define f where "f = \<lfloor>y\<rfloor>"
  have "of_int f \<le> y" "y < of_int f + 1" unfolding f_def by linarith+
  then show ?thesis
    unfolding rne_def f_def [symmetric] Let_def by (auto simp: abs_if)
qed

lemma rne_abs_le: "\<bar>real_of_int (rne y)\<bar> \<le> 2 * \<bar>y\<bar>"
proof (cases "\<bar>y\<bar> < 1 / 2")
  case True
  then have "of_int (- 1) \<le> y" "y \<le> of_int 1" by (simp_all add: abs_if split: if_splits)
  then have "- 1 \<le> rne y" "rne y \<le> 1" using rne_ge [of "- 1" y] rne_le [of y 1] by simp_all
  moreover have "rne y \<noteq> 1"
  proof
    assume "rne y = 1"
    then have "\<bar>1 - y\<bar> \<le> 1 / 2" using rne_near [of y] by simp
    with True show False by linarith
  qed
  moreover have "rne y \<noteq> - 1"
  proof
    assume "rne y = - 1"
    then have "\<bar>- 1 - y\<bar> \<le> 1 / 2" using rne_near [of y] by simp
    with True show False by linarith
  qed
  ultimately have "rne y = 0" by linarith
  then show ?thesis by simp
next
  case False
  then show ?thesis using rne_near [of y] by (simp add: abs_if split: if_splits)
qed

lemma ilog2_bounds:
  assumes "0 < x"
  shows "2 powi (ilog2 x) \<le> x" and "x < 2 powi (ilog2 x + 1)"
proof -
  have "2 powi (ilog2 x) \<le> x \<and> x < 2 powi (ilog2 x + 1)"
  proof (cases "1 \<le> x")
    case True
    define n where "n = \<lfloor>x\<rfloor>"
    have n: "0 < n" "of_int n \<le> x" "x < of_int n + 1"
      using True unfolding n_def by linarith+
    define b where "b = bitlen n"
    have b: "2 ^ nat (b - 1) \<le> n" "n < 2 ^ nat b"
      using bitlen_bounds [OF n(1)] by (simp_all add: b_def)
    have b1: "1 \<le> b" using n(1) by (simp add: b_def bitlen_alt_def)
    have e: "ilog2 x = b - 1" using True by (simp add: ilog2_def n_def b_def)
    have "real_of_int (2 ^ nat (b - 1)) \<le> of_int n" using b(1) by (simp only: of_int_le_iff)
    then have "(2::real) ^ nat (b - 1) \<le> of_int n" by simp
    then have "(2::real) ^ nat (b - 1) \<le> x" using n(2) by linarith
    then have lo: "2 powi (b - 1) \<le> x" using b1 by (simp add: power_int_nonneg_exp)
    have "n + 1 \<le> 2 ^ nat b" using b(2) by simp
    then have "real_of_int (n + 1) \<le> real_of_int (2 ^ nat b)" by (simp only: of_int_le_iff)
    then have "of_int n + 1 \<le> (2::real) ^ nat b" by simp
    then have "x < (2::real) ^ nat b" using n(3) by linarith
    then have hi: "x < 2 powi b" using b1 by (simp add: power_int_nonneg_exp)
    show ?thesis using lo hi by (simp add: e)
  next
    case False
    define m where "m = \<lceil>1 / x\<rceil>"
    have x1: "1 < 1 / x" using assms False by simp
    have m: "1 / x \<le> of_int m" "of_int m - 1 < 1 / x"
      unfolding m_def by linarith+
    have m2: "0 < m - 1" using x1 m(1) by linarith
    define k where "k = bitlen (m - 1)"
    have k: "2 ^ nat (k - 1) \<le> m - 1" "m - 1 < 2 ^ nat k"
      using bitlen_bounds [OF m2] by (simp_all add: k_def)
    have k1: "1 \<le> k" using m2 by (simp add: k_def bitlen_alt_def)
    have e: "ilog2 x = - k" using False by (simp add: ilog2_def m_def k_def)
    have "m \<le> 2 ^ nat k" using k(2) by simp
    then have "real_of_int m \<le> real_of_int (2 ^ nat k)" by (simp only: of_int_le_iff)
    then have "real_of_int m \<le> 2 ^ nat k" by simp
    then have "1 / x \<le> 2 ^ nat k" using m(1) by linarith
    then have "1 \<le> 2 ^ nat k * x" using assms by (simp add: field_simps)
    then have lo: "2 powi (- k) \<le> x"
      using k1 by (simp add: power_int_minus power_int_nonneg_exp field_simps)
    have "real_of_int (2 ^ nat (k - 1)) \<le> real_of_int (m - 1)" using k(1) by (simp only: of_int_le_iff)
    then have "(2::real) ^ nat (k - 1) \<le> of_int m - 1" by simp
    then have "2 ^ nat (k - 1) < 1 / x" using m(2) by linarith
    then have "2 ^ nat (k - 1) * x < 1" using assms by (simp add: field_simps)
    moreover have "- k + 1 = - (k - 1)" by simp
    ultimately have hi: "x < 2 powi (- k + 1)"
      using k1 by (simp only: power_int_minus) (simp add: power_int_nonneg_exp field_simps)
    show ?thesis using lo hi by (simp add: e)
  qed
  then show "2 powi (ilog2 x) \<le> x" and "x < 2 powi (ilog2 x + 1)" by simp_all
qed

lemma two_powi_less_cancel: "(2::real) powi a < 2 powi b \<Longrightarrow> a < b"
  by (rule ccontr) (simp add: not_less power_int_increasing leD)

lemma ilog2_unique:
  assumes "0 < x" and "2 powi k \<le> x" and "x < 2 powi (k + 1)"
  shows "ilog2 x = k"
proof -
  have "2 powi (ilog2 x) < (2::real) powi (k + 1)"
    using ilog2_bounds(1) [OF assms(1)] assms(3) by linarith
  then have "ilog2 x < k + 1" by (rule two_powi_less_cancel)
  moreover have "(2::real) powi k < 2 powi (ilog2 x + 1)"
    using ilog2_bounds(2) [OF assms(1)] assms(2) by linarith
  then have "k < ilog2 x + 1" by (rule two_powi_less_cancel)
  ultimately show ?thesis by simp
qed

lemma two_powi_le_cancel: "(2::real) powi a \<le> 2 powi b \<Longrightarrow> a \<le> b"
proof (rule ccontr)
  assume le: "(2::real) powi a \<le> 2 powi b" and "\<not> a \<le> b"
  then have "b < a" by simp
  then have "(2::real) powi b < 2 powi a" by (intro power_int_strict_increasing) simp_all
  with le show False by simp
qed

text \<open>The rounding is a multiple of the unit in the last place, within twice the argument.\<close>

lemma round_dbl_unfold:
  assumes "x \<noteq> 0"
  shows "round_dbl x
    = of_int (rne (x / 2 powi (max (ilog2 \<bar>x\<bar>) (- 1022) - 52))) * 2 powi (max (ilog2 \<bar>x\<bar>) (- 1022) - 52)"
  using assms by (simp add: round_dbl_def Let_def)

lemma round_dbl_abs_le: "\<bar>round_dbl x\<bar> \<le> 2 * \<bar>x\<bar>"
proof (cases "x = 0")
  case True
  then show ?thesis by (simp add: round_dbl_def)
next
  case False
  define u :: real where "u = 2 powi (max (ilog2 \<bar>x\<bar>) (- 1022) - 52)"
  have u: "0 < u" by (simp add: u_def)
  have "\<bar>round_dbl x\<bar> = \<bar>real_of_int (rne (x / u))\<bar> * u"
    using u by (simp add: round_dbl_unfold [OF False] u_def [symmetric] abs_mult)
  also have "\<dots> \<le> (2 * \<bar>x / u\<bar>) * u"
    using rne_abs_le [of "x / u"] u by (intro mult_right_mono) simp_all
  also have "\<dots> = 2 * \<bar>x\<bar>" using u by (simp add: abs_divide)
  finally show ?thesis .
qed

lemma round_dbl_of_int:
  assumes "\<bar>n\<bar> \<le> 2 ^ 53"
  shows "round_dbl (of_int n) = of_int n"
proof (cases "n = 0")
  case True
  then show ?thesis by (simp add: round_dbl_def)
next
  case False
  define x where "x = real_of_int n"
  define e where "e = ilog2 \<bar>x\<bar>"
  have x0: "x \<noteq> 0" using False by (simp add: x_def)
  have x1: "1 \<le> \<bar>x\<bar>" using False unfolding x_def by (simp flip: of_int_abs)
  have "real_of_int \<bar>n\<bar> \<le> real_of_int (2 ^ 53)" using assms by (simp only: of_int_le_iff)
  then have x53: "\<bar>x\<bar> \<le> 2 ^ 53" by (simp add: x_def)
  have pos: "0 < \<bar>x\<bar>" using x0 by simp
  have lo: "2 powi e \<le> \<bar>x\<bar>" and hi: "\<bar>x\<bar> < 2 powi (e + 1)"
    unfolding e_def using ilog2_bounds [OF pos] by simp_all
  have "(2::real) powi 0 < 2 powi (e + 1)" using x1 hi by simp
  then have e0: "0 \<le> e" using two_powi_less_cancel [of 0 "e + 1"] by simp
  have "(2::real) powi e \<le> 2 powi 53" using lo x53 by simp
  then have e53: "e \<le> 53" by (rule two_powi_le_cancel)
  define u :: real where "u = 2 powi (e - 52)"
  have u: "0 < u" by (simp add: u_def)
  have r: "round_dbl x = of_int (rne (x / u)) * u"
    using e0 by (simp add: round_dbl_unfold [OF x0] e_def [symmetric] u_def)
  have "\<exists>k::int. x / u = of_int k"
  proof (cases "e \<le> 52")
    case True
    then have "u = 1 / 2 ^ nat (52 - e)"
      using power_int_minus_divide [of "2::real" "52 - e"] by (simp add: u_def power_int_nonneg_exp)
    then have "x / u = of_int (n * 2 ^ nat (52 - e))" by (simp add: x_def)
    then show ?thesis by blast
  next
    case False
    with e53 have e: "e = 53" by simp
    then have "(2::real) ^ 53 \<le> \<bar>x\<bar>" using lo by simp
    with x53 have "\<bar>x\<bar> = 2 ^ 53" by simp
    then have "x = 2 ^ 53 \<or> x = - (2 ^ 53)" by (simp add: abs_if split: if_splits)
    moreover have "u = 2" by (simp add: u_def e)
    ultimately have "x / u = of_int (2 ^ 52) \<or> x / u = of_int (- (2 ^ 52))" by auto
    then show ?thesis by blast
  qed
  then obtain k :: int where k: "x / u = of_int k" ..
  then have "round_dbl x = of_int k * u" by (simp add: r)
  also have "\<dots> = x" using k u by (simp add: field_simps)
  finally show ?thesis by (simp add: x_def)
qed

text \<open>A double in \<open>[1/2, 1)\<close> is a multiple of \<open>2\<^sup>-\<^sup>5\<^sup>3\<close>.\<close>

lemma round_dbl_grid:
  assumes "1 / 2 \<le> round_dbl q" and "round_dbl q < 1"
  shows "\<exists>k::int. round_dbl q = of_int k / 2 ^ 53"
proof -
  have q0: "q \<noteq> 0" using assms(1) by (auto simp: round_dbl_def)
  define e where "e = ilog2 \<bar>q\<bar>"
  define E where "E = max e (- 1022)"
  define u :: real where "u = 2 powi (E - 52)"
  define m where "m = rne (q / u)"
  have u: "0 < u" by (simp add: u_def)
  have r: "round_dbl q = of_int m * u"
    by (simp add: round_dbl_unfold [OF q0] e_def [symmetric] E_def [symmetric] u_def m_def)
  have pos: "0 < \<bar>q\<bar>" using q0 by simp
  have lo: "2 powi e \<le> \<bar>q\<bar>" and hi: "\<bar>q\<bar> < 2 powi (e + 1)"
    unfolding e_def using ilog2_bounds [OF pos] by simp_all
  have "(2::real) powi (53 + (E - 52)) = 2 powi 53 * 2 powi (E - 52)"
    by (rule power_int_add) simp
  moreover have "53 + (E - 52) = E + 1" by simp
  ultimately have split: "2 powi (E + 1) = (2::real) ^ 53 * u"
    by (simp only: u_def power_int_numeral)
  have "(2::real) powi (52 + (E - 52)) = 2 powi 52 * 2 powi (E - 52)"
    by (rule power_int_add) simp
  moreover have "52 + (E - 52) = E" by simp
  ultimately have split0: "2 powi E = (2::real) ^ 52 * u"
    by (simp only: u_def power_int_numeral)
  have "(2::real) powi (e + 1) \<le> 2 powi (E + 1)"
    by (intro power_int_increasing) (simp_all add: E_def)
  then have "\<bar>q\<bar> < 2 ^ 53 * u" using hi split by linarith
  then have "q / u \<le> of_int (2 ^ 53)" using u by (simp add: field_simps abs_if split: if_splits)
  then have m53: "m \<le> 2 ^ 53" unfolding m_def by (rule rne_le)
  have mpos: "0 < m"
  proof (rule ccontr)
    assume "\<not> 0 < m"
    then have "real_of_int m \<le> 0" by simp
    then have "of_int m * u \<le> 0" using u by (simp add: mult_le_0_iff)
    with assms(1) r show False by simp
  qed
  have "real_of_int m \<le> real_of_int (2 ^ 53)" using m53 by (simp only: of_int_le_iff)
  then have "of_int m * u \<le> 2 ^ 53 * u" using u by simp
  then have "(2::real) powi (- 1) \<le> 2 powi (E + 1)" using assms(1) r split by simp
  then have E2: "- 2 \<le> E" using two_powi_le_cancel [of "- 1" "E + 1"] by simp
  then have Ee: "E = e" by (simp add: E_def max_def split: if_splits)
  have qpos: "0 < q"
  proof (rule ccontr)
    assume "\<not> 0 < q"
    then have "q / u \<le> of_int 0" using u by (simp add: field_simps)
    then have "m \<le> 0" unfolding m_def by (rule rne_le)
    with mpos show False by simp
  qed
  have "2 ^ 52 * u \<le> q" using lo split0 qpos by (simp add: Ee)
  then have "of_int (2 ^ 52) \<le> q / u" using u by (simp add: field_simps)
  then have m52: "2 ^ 52 \<le> m" unfolding m_def by (rule rne_ge)
  have "real_of_int (2 ^ 52) \<le> real_of_int m" using m52 by (simp only: of_int_le_iff)
  then have "2 ^ 52 * u \<le> of_int m * u" using u by simp
  then have "(2::real) powi E < 2 powi 0" using assms(2) r split0 by simp
  then have E0: "E < 0" by (rule two_powi_less_cancel)
  from E2 E0 consider "E = - 1" | "E = - 2" by linarith
  then show ?thesis
  proof cases
    case 1
    then have "u = 1 / 2 ^ 53" by (simp add: u_def)
    then have "round_dbl q = of_int m / 2 ^ 53" using r by simp
    then show ?thesis by blast
  next
    case 2
    then have u54: "u = 1 / 2 ^ 54" by (simp add: u_def)
    have "(2::real) ^ 53 \<le> of_int m" using assms(1) r by (simp add: u54)
    then have "real_of_int (2 ^ 53) \<le> real_of_int m" by simp
    then have "2 ^ 53 \<le> m" by (simp only: of_int_le_iff)
    with m53 have "m = 2 ^ 53" by simp
    then have "round_dbl q = of_int (2 ^ 52) / 2 ^ 53" using r by (simp add: u54)
    then show ?thesis by blast
  qed
qed

text \<open>The double that the literal \<open>0.8\<close> denotes lies just above \<open>4/5\<close>, and no double
  lies between them: for the quotient of two doubles, \<open>ratio < 0.8\<close> in the code is
  \<open>ratio < 4/5\<close>.\<close>

lemma round_dbl_08: "round_dbl (4 / 5) = 3602879701896397 / 4503599627370496"
  by code_simp

lemma less_08:
  "round_dbl q < round_dbl (4 / 5) \<longleftrightarrow> round_dbl q < 4 / 5"
proof
  assume "round_dbl q < 4 / 5"
  then show "round_dbl q < round_dbl (4 / 5)" by (simp add: round_dbl_08)
next
  assume a: "round_dbl q < round_dbl (4 / 5)"
  show "round_dbl q < 4 / 5"
  proof (rule ccontr)
    assume "\<not> round_dbl q < 4 / 5"
    then have ge: "4 / 5 \<le> round_dbl q" by simp
    then have "1 / 2 \<le> round_dbl q" "round_dbl q < 1" using a by (simp_all add: round_dbl_08)
    then obtain k :: int where k: "round_dbl q = of_int k / 2 ^ 53"
      using round_dbl_grid by blast
    have "real_of_int k < 7205759403792794" using a by (simp add: round_dbl_08 k)
    then have "k < 7205759403792794" by simp
    then have "k \<le> 7205759403792793" by simp
    then have "real_of_int k \<le> 7205759403792793" by simp
    moreover have "4 / 5 * 2 ^ 53 \<le> real_of_int k" using ge by (simp add: k field_simps)
    ultimately show False by simp
  qed
qed

text \<open>
  The rounded operations: the exact result, rounded, and an infinity when the rounded
  value lies beyond \<open>DBL_MAX\<close>. The special values behave as in the exact operations.
\<close>

definition round_to_dbl :: "real \<Rightarrow> dbl" where
  "round_to_dbl r = dbl_of_real (round_dbl r)"

fun dadd_r :: "dbl \<Rightarrow> dbl \<Rightarrow> dbl" where
  "dadd_r (Fin a) (Fin b) = round_to_dbl (a + b)"
| "dadd_r x y = dadd x y"

fun dmul_r :: "dbl \<Rightarrow> dbl \<Rightarrow> dbl" where
  "dmul_r (Fin a) (Fin b) = round_to_dbl (a * b)"
| "dmul_r x y = dmul x y"

fun ddiv_r :: "dbl \<Rightarrow> dbl \<Rightarrow> dbl" where
  "ddiv_r (Fin a) (Fin b) = (if b = 0 then ddiv (Fin a) (Fin b) else round_to_dbl (a / b))"
| "ddiv_r x y = ddiv x y"

text \<open>A decimal literal of the source denotes the double nearest to it.\<close>

definition lit :: "real \<Rightarrow> dbl" where
  "lit r = round_to_dbl r"

lemma round_to_dbl_of_int: "\<bar>n\<bar> \<le> 2 ^ 53 \<Longrightarrow> round_to_dbl (of_int n) = Fin (of_int n)"
proof -
  assume n: "\<bar>n\<bar> \<le> 2 ^ 53"
  then have "real_of_int \<bar>n\<bar> \<le> real_of_int (2 ^ 53)" by (simp only: of_int_le_iff)
  then have "\<bar>real_of_int n\<bar> \<le> 2 ^ 53" by simp
  moreover have "(2::real) ^ 53 \<le> DBL_MAX" by (simp add: DBL_MAX_def)
  ultimately have "\<bar>real_of_int n\<bar> \<le> DBL_MAX" by linarith
  then show ?thesis
    by (simp add: round_to_dbl_def round_dbl_of_int [OF n] dbl_of_real_in_range)
qed

lemma round_to_dbl_bounded: "2 * \<bar>x\<bar> \<le> DBL_MAX \<Longrightarrow> round_to_dbl x = Fin (round_dbl x)"
proof -
  assume "2 * \<bar>x\<bar> \<le> DBL_MAX"
  then have "\<bar>round_dbl x\<bar> \<le> DBL_MAX" using round_dbl_abs_le [of x] by linarith
  then show ?thesis by (simp add: round_to_dbl_def dbl_of_real_in_range)
qed

section \<open>Mining: the reward schedule\<close>







section \<open>Mining: the capped counter of mined coins\<close>

text \<open>
  \<open>static_cast<int64_t>\<close> of a double truncates towards zero. The conversion of a value
  that does not fit (or of an infinity or a NaN) is undefined in C++; the model takes what
  the x86-64 conversion instruction delivers, the least 64-bit integer. The integers are
  64-bit words read as two's complement (\<open>sint\<close>); addition wraps around.
\<close>

definition trunc :: "real \<Rightarrow> int" where
  "trunc r = (if 0 \<le> r then \<lfloor>r\<rfloor> else \<lceil>r\<rceil>)"

definition INT64_MIN :: "64 word" where
  "INT64_MIN = word_of_int (- (2 ^ 63))"

fun i64_of_dbl :: "dbl \<Rightarrow> 64 word" where
  "i64_of_dbl (Fin r) =
     (if - (2 ^ 63) \<le> trunc r \<and> trunc r < 2 ^ 63 then word_of_int (trunc r) else INT64_MIN)"
| "i64_of_dbl _ = INT64_MIN"

text \<open>The conversion of an \<open>int64_t\<close> to \<open>double\<close> rounds to nearest.\<close>

definition dbl_of_i64 :: "64 word \<Rightarrow> dbl" where
  "dbl_of_i64 w = round_to_dbl (real_of_int (sint w))"

text \<open>\<open>static_cast<int64_t>(amount * 100000000)\<close>: the double product, truncated.\<close>

definition to_satoshis :: "dbl \<Rightarrow> 64 word" where
  "to_satoshis amount = i64_of_dbl (dmul_r amount (Fin 100000000))"

definition MAX_MINABLE_COINS :: dbl where "MAX_MINABLE_COINS = Fin 3000000"
definition MAX_DIFFICULTY :: int where "MAX_DIFFICULTY = 512"
definition MIN_DIFFICULTY :: int where "MIN_DIFFICULTY = 1"
definition DEFAULT_DIFFICULTY :: int where "DEFAULT_DIFFICULTY = 4"

text \<open>
  The state of a \<open>MiningManager\<close>: the fields \<open>totalMinedCoins_\<close> (in units of
  \<open>10\<^sup>-\<^sup>8\<close> coin) and \<open>currentDifficulty_\<close>. Every member function below runs under
  \<open>miningMutex_\<close>, so the calls of concurrent threads take effect one after the other,
  in some order: a list of calls.
\<close>

record MiningManager =
  totalMinedCoins :: "64 word"
  currentDifficulty :: int

definition new_MiningManager :: MiningManager where
  "new_MiningManager = \<lparr>totalMinedCoins = 0, currentDifficulty = DEFAULT_DIFFICULTY\<rparr>"

definition maxSatoshis :: "64 word" where
  "maxSatoshis = to_satoshis MAX_MINABLE_COINS"

definition addMinedCoins :: "dbl \<Rightarrow> MiningManager \<Rightarrow> MiningManager" where
  "addMinedCoins amount m =
     (let amountSatoshis = to_satoshis amount;
          current = totalMinedCoins m
      in if sint maxSatoshis < sint (current + amountSatoshis)
         then m\<lparr>totalMinedCoins := maxSatoshis\<rparr>
         else m\<lparr>totalMinedCoins := totalMinedCoins m + amountSatoshis\<rparr>)"

definition getTotalMinedCoins :: "MiningManager \<Rightarrow> dbl" where
  "getTotalMinedCoins m = ddiv_r (dbl_of_i64 (totalMinedCoins m)) (Fin 100000000)"

definition checkMiningLimit :: "MiningManager \<Rightarrow> bool" where
  "checkMiningLimit m = dlt (getTotalMinedCoins m) MAX_MINABLE_COINS"

text \<open>A sequence of \<open>addMinedCoins\<close> calls, in the order in which they take the mutex.\<close>

fun addMinedCoins_all :: "dbl list \<Rightarrow> MiningManager \<Rightarrow> MiningManager" where
  "addMinedCoins_all [] m = m"
| "addMinedCoins_all (a # as) m = addMinedCoins_all as (addMinedCoins a m)"

text \<open>A whole number of coins up to 90,000,000 is converted exactly.\<close>

lemma trunc_of_int [simp]: "trunc (of_int k) = k"
  by (simp add: trunc_def)

lemma to_satoshis_whole:
  assumes "n \<le> 90000000"
  shows "to_satoshis (Fin (real n)) = word_of_int (int n * 100000000)"
proof -
  define k where "k = int n * 100000000"
  have kr: "real n * 100000000 = real_of_int k" by (simp add: k_def)
  have "\<bar>k\<bar> \<le> 2 ^ 53" using assms by (simp add: k_def)
  then have "round_to_dbl (real_of_int k) = Fin (real_of_int k)"
    by (rule round_to_dbl_of_int)
  then have d: "dmul_r (Fin (real n)) (Fin 100000000) = Fin (real_of_int k)"
    unfolding dmul_r.simps kr .
  have "- (2 ^ 63) \<le> k" "k < 2 ^ 63" using assms by (simp_all add: k_def)
  then have "i64_of_dbl (Fin (real_of_int k)) = word_of_int k"
    unfolding i64_of_dbl.simps trunc_of_int by simp
  then show ?thesis by (simp only: to_satoshis_def d k_def)
qed

lemma maxSatoshis_value: "maxSatoshis = 300000000000000"
  using to_satoshis_whole [of 3000000] by (simp add: maxSatoshis_def MAX_MINABLE_COINS_def)

lemma sint_maxSatoshis: "sint maxSatoshis = 300000000000000"
  by (simp add: maxSatoshis_value)

lemma addMinedCoins_capped: "sint (totalMinedCoins (addMinedCoins a m)) \<le> sint maxSatoshis"
  by (simp add: addMinedCoins_def Let_def)

lemma addMinedCoins_all_capped:
  "sint (totalMinedCoins m) \<le> sint maxSatoshis \<Longrightarrow>
   sint (totalMinedCoins (addMinedCoins_all as m)) \<le> sint maxSatoshis"
  by (induction as arbitrary: m) (simp_all add: addMinedCoins_capped)

section \<open>Strings\<close>

text \<open>\<open>s.find(pat)\<close>: the first position at which \<open>pat\<close> occurs in \<open>s\<close>, \<open>None\<close> for
  \<open>npos\<close>.\<close>

fun str_find :: "string \<Rightarrow> string \<Rightarrow> nat option" where
  "str_find pat [] = (if pat = [] then Some 0 else None)"
| "str_find pat (c # cs) =
     (if take (length pat) (c # cs) = pat then Some 0 else map_option Suc (str_find pat cs))"

text \<open>\<open>s.find(pat) == 0\<close>.\<close>

definition starts_with :: "string \<Rightarrow> string \<Rightarrow> bool" where
  "starts_with pat s = (str_find pat s = Some 0)"

text \<open>\<open>std::to_string\<close> of an \<open>int\<close>: the decimal digits, after a minus sign for a negative
  number.\<close>

fun nat_to_string :: "nat \<Rightarrow> string" where
  "nat_to_string n =
     (if n < 10 then [''0123456789'' ! n]
      else nat_to_string (n div 10) @ [''0123456789'' ! (n mod 10)])"

declare nat_to_string.simps [simp del]

definition to_string :: "int \<Rightarrow> string" where
  "to_string i = (if i < 0 then CHR ''-'' # nat_to_string (nat (- i)) else nat_to_string (nat i))"

lemma str_find_Some_0: "str_find pat s = Some 0 \<longleftrightarrow> take (length pat) s = pat"
  by (cases s) (auto split: if_splits)

lemma str_find_occurs: "str_find pat s \<noteq> None \<longleftrightarrow> (\<exists>a b. s = a @ pat @ b)"
proof (induction s)
  case Nil
  then show ?case by simp
next
  case (Cons c cs)
  show ?case
  proof (cases "take (length pat) (c # cs) = pat")
    case True
    then have "c # cs = [] @ pat @ drop (length pat) (c # cs)"
      by (metis append_Nil append_take_drop_id)
    then have "\<exists>a b. c # cs = a @ pat @ b" by blast
    with True show ?thesis by simp
  next
    case False
    have "(\<exists>a b. c # cs = a @ pat @ b) \<longleftrightarrow> (\<exists>a b. cs = a @ pat @ b)"
    proof
      assume "\<exists>a b. c # cs = a @ pat @ b"
      then obtain a b where ab: "c # cs = a @ pat @ b" by blast
      show "\<exists>a b. cs = a @ pat @ b"
      proof (cases a)
        case Nil
        with ab have "take (length pat) (c # cs) = pat" by simp
        with False show ?thesis by simp
      next
        case (Cons x xs)
        with ab have "cs = xs @ pat @ b" by simp
        then show ?thesis by blast
      qed
    next
      assume "\<exists>a b. cs = a @ pat @ b"
      then obtain a b where "cs = a @ pat @ b" by blast
      then have "c # cs = (c # a) @ pat @ b" by simp
      then show "\<exists>a b. c # cs = a @ pat @ b" by blast
    qed
    with False Cons.IH show ?thesis by simp
  qed
qed

lemma to_string_0: "to_string 0 = ''0''"
  by (simp add: to_string_def nat_to_string.simps)

section \<open>The ledger: transactions, blocks and the chain\<close>

text \<open>
  The checks of \<open>CryptoManager\<close> that block validation calls. They inspect their
  arguments only: no key and no digest enters.
\<close>

definition REQUIRED_SIGNATURES :: nat where "REQUIRED_SIGNATURES = 10"

definition verifyTransaction :: "string \<Rightarrow> string \<Rightarrow> string \<Rightarrow> bool" where
  "verifyTransaction txId signature sender =
     (if txId = [] \<or> signature = [] \<or> sender = [] then False
      else starts_with ''hmac_v11_'' signature \<or> starts_with ''signed_v11_'' signature)"

definition zkStarkVerify_v11 :: "string \<Rightarrow> bool" where
  "zkStarkVerify_v11 proof = (proof \<noteq> [] \<and> starts_with ''zk_proof_v11_'' proof)"

definition validateMultiSignature :: "string list \<Rightarrow> bool" where
  "validateMultiSignature signatures =
     (if length signatures < REQUIRED_SIGNATURES then False
      else list_all (\<lambda>sig. sig \<noteq> [] \<and> 4 \<le> length sig) signatures)"

datatype TransactionStatus = Pending | Confirmed | Failed | Expired

record Transaction =
  sender :: string
  receiver :: string
  txId :: string
  signature :: string
  zkProof :: string
  multiSignatures :: "string list"
  amount :: dbl
  fee :: dbl
  timestamp :: int
  expiresAt :: int
  shardId :: int
  status :: TransactionStatus
  confirmations :: int

text \<open>\<open>Transaction::verify\<close>; \<open>now\<close> is the value of \<open>time(nullptr)\<close>.\<close>

definition verify :: "int \<Rightarrow> Transaction \<Rightarrow> bool" where
  "verify now tx =
     (if expiresAt tx < now then False
      else if \<not> verifyTransaction (txId tx) (signature tx) (sender tx) then False
      else if \<not> zkStarkVerify_v11 (zkProof tx) then False
      else if \<not> validateMultiSignature (multiSignatures tx) then False
      else True)"

record Block =
  prevHash :: string
  hash :: string
  merkleRoot :: string
  blockTimestamp :: int
  nonce :: int
  difficulty :: int
  reward :: dbl
  transactions :: "Transaction list"
  isOrphaned :: bool
  blockShardId :: int
  version :: int

text \<open>What the ledger's operations throw.\<close>

datatype error =
    ReentrancyFault  \<comment> \<open>\<open>std::runtime_error("Reentrancy attack prevented")\<close>\<close>
  | LengthError      \<comment> \<open>\<open>std::length_error\<close>, from \<open>std::string(n, c)\<close> with a negative \<open>n\<close>\<close>

text \<open>
  \<open>Block::validate\<close>. The target string \<open>std::string(difficulty, '0')\<close> is built from an
  \<open>int\<close>: a negative one turns into a size beyond \<open>max_size()\<close> and the constructor throws.
\<close>

definition validate :: "int \<Rightarrow> Block \<Rightarrow> error + bool" where
  "validate now b =
     (if starts_with ''genesis_'' (prevHash b) then Inr (\<not> isOrphaned b)
      else if difficulty b < 0 then Inl LengthError
      else if take (nat (difficulty b)) (hash b) \<noteq> replicate (nat (difficulty b)) CHR ''0''
        then Inr False
      else if \<not> list_all (verify now) (transactions b) then Inr False
      else Inr (\<not> isOrphaned b))"

text \<open>
  The fields of \<open>Blockchain\<close> that the operations below read or write: the chain, the two
  balance stores, the founder's stealth address, the counter of mined coins (in units of
  \<open>10\<^sup>-\<^sup>8\<close> coin) and the two reentrancy flags.
\<close>

record Blockchain =
  chain :: "Block list"
  balances :: "string \<rightharpoonup> dbl"
  hiddenBalances :: "string \<rightharpoonup> dbl"
  founderStealthAddress :: string
  bc_totalMinedCoins :: "64 word"
  isAddingBlock :: bool
  isTransferring :: bool

text \<open>
  The constructor: sixteen genesis blocks and the hidden premined account. The digest
  function \<open>sha3_512_v11\<close>, the clock and the freshly generated public key are parameters.
\<close>

definition genesisBlock :: "(string \<Rightarrow> int \<Rightarrow> string) \<Rightarrow> int \<Rightarrow> nat \<Rightarrow> Block" where
  "genesisBlock sha3_512_v11 now i =
     \<lparr>prevHash = ''genesis_'' @ to_string (int i),
      hash = sha3_512_v11 (''genesis_'' @ to_string (int i)) (int i),
      merkleRoot = ''genesis_merkle_'' @ to_string (int i),
      blockTimestamp = now, nonce = 0, difficulty = 4, reward = Fin 50,
      transactions = [], isOrphaned = False, blockShardId = int i, version = 7\<rparr>"

definition new_Blockchain :: "(string \<Rightarrow> int \<Rightarrow> string) \<Rightarrow> int \<Rightarrow> string \<Rightarrow> Blockchain" where
  "new_Blockchain sha3_512_v11 now publicKey =
     (let stealthAddress = sha3_512_v11 (publicKey @ ''_stealth_founder'') 0
      in \<lparr>chain = map (genesisBlock sha3_512_v11 now) [0..<16],
          balances = Map.empty,
          hiddenBalances = [stealthAddress \<mapsto> Fin 2000000],
          founderStealthAddress = stealthAddress,
          bc_totalMinedCoins = 0,
          isAddingBlock = False,
          isTransferring = False\<rparr>)"

text \<open>
  \<open>Blockchain::addBlock\<close>. The \<open>ReentrancyGuard\<close> throws when the flag is already set (and
  leaves it set); otherwise it sets the flag and its destructor clears it on every way
  out, a thrown exception included. The result pairs what the call returns or throws with
  the ledger it leaves.
\<close>

definition addBlock :: "int \<Rightarrow> Block \<Rightarrow> Blockchain \<Rightarrow> (error + bool) \<times> Blockchain" where
  "addBlock now block bc =
     (if isAddingBlock bc then (Inl ReentrancyFault, bc)
      else case validate now block of
        Inl e \<Rightarrow> (Inl e, bc\<lparr>isAddingBlock := False\<rparr>)
      | Inr False \<Rightarrow> (Inr False, bc\<lparr>isAddingBlock := False\<rparr>)
      | Inr True \<Rightarrow>
          (Inr True,
           bc\<lparr>chain := chain bc @ [block],
              bc_totalMinedCoins := bc_totalMinedCoins bc + to_satoshis (reward block),
              isAddingBlock := False\<rparr>))"

text \<open>\<open>Blockchain::getTotalMinedCoins\<close>.\<close>

definition bc_getTotalMinedCoins :: "Blockchain \<Rightarrow> dbl" where
  "bc_getTotalMinedCoins bc =
     (let mined = ddiv_r (dbl_of_i64 (bc_totalMinedCoins bc)) (Fin 100000000)
      in dmin mined (Fin 3000000))"

subsection \<open>The bound on the mined coins\<close>

definition bigBlock :: Block where
  "bigBlock =
     \<lparr>prevHash = ''genesis_16'', hash = [], merkleRoot = [], blockTimestamp = 0, nonce = 0,
      difficulty = 4, reward = Fin 4000000, transactions = [], isOrphaned = False,
      blockShardId = 0, version = 7\<rparr>"

lemma big_amount: "to_satoshis (Fin 4000000) = 400000000000000"
  using to_satoshis_whole [of 4000000] by simp

lemma validate_big: "validate 0 bigBlock = Inr True"
  by (simp add: validate_def bigBlock_def starts_with_def)

lemma addBlock_big:
  "addBlock 0 bigBlock (new_Blockchain (\<lambda>d i. d) 0 ''k'')
     = (Inr True,
        (new_Blockchain (\<lambda>d i. d) 0 ''k'')
          \<lparr>chain := chain (new_Blockchain (\<lambda>d i. d) 0 ''k'') @ [bigBlock],
           bc_totalMinedCoins := 400000000000000,
           isAddingBlock := False\<rparr>)"
proof -
  have r: "reward bigBlock = Fin 4000000" by (simp add: bigBlock_def)
  have f: "\<not> isAddingBlock (new_Blockchain (\<lambda>d i. d) 0 ''k'')"
    "bc_totalMinedCoins (new_Blockchain (\<lambda>d i. d) 0 ''k'') = 0"
    by (simp_all add: new_Blockchain_def Let_def)
  show ?thesis
    by (simp add: addBlock_def validate_big r big_amount f)
qed

text \<open>
  Claim C2, as stated, fails for the ledger's counter: \<open>addBlock\<close> adds
  \<open>reward * 10\<^sup>8\<close> with \<open>fetch_add\<close> and no bound. A block with a genesis-style
  \<open>prevHash\<close> and a reward of 4,000,000 coins is accepted by a fresh ledger and leaves the
  counter above the cap of \<open>3 * 10\<^sup>1\<^sup>4\<close> units.
\<close>

theorem addBlock_exceeds_cap:
  "fst (addBlock 0 bigBlock (new_Blockchain (\<lambda>d i. d) 0 ''k'')) = Inr True
   \<and> sint maxSatoshis
       < sint (bc_totalMinedCoins (snd (addBlock 0 bigBlock (new_Blockchain (\<lambda>d i. d) 0 ''k''))))"
  by (simp add: addBlock_big maxSatoshis_value)

lemma addMinedCoins_saturates:
  assumes "- (2 ^ 63) \<le> sint (totalMinedCoins m) + sint (to_satoshis a)"
    and "sint (totalMinedCoins m) + sint (to_satoshis a) < 2 ^ 63"
  shows "sint (totalMinedCoins (addMinedCoins a m))
    = min (sint (totalMinedCoins m) + sint (to_satoshis a)) 300000000000000"
proof -
  have "sint (totalMinedCoins m + to_satoshis a)
      = signed_take_bit 63 (sint (totalMinedCoins m) + sint (to_satoshis a))"
    by (simp add: sint_word_ariths)
  also have "\<dots> = sint (totalMinedCoins m) + sint (to_satoshis a)"
    using assms by (intro signed_take_bit_int_eq_self) simp_all
  finally show ?thesis
    by (simp add: addMinedCoins_def Let_def sint_maxSatoshis min_def)
qed

lemma to_satoshis_finite:
  assumes "\<bar>round_dbl (x * 100000000)\<bar> < 2 ^ 63"
  shows "sint (to_satoshis (Fin x)) = trunc (round_dbl (x * 100000000))"
proof -
  define r where "r = round_dbl (x * 100000000)"
  have r: "\<bar>r\<bar> < 2 ^ 63" using assms by (simp add: r_def)
  moreover have "(2::real) ^ 63 \<le> DBL_MAX" by (simp add: DBL_MAX_def)
  ultimately have "\<bar>r\<bar> \<le> DBL_MAX" by linarith
  then have d: "dmul_r (Fin x) (Fin 100000000) = Fin r"
    by (simp add: round_to_dbl_def r_def [symmetric] dbl_of_real_in_range)
  have "- (2 ^ 63) < r" "r < 2 ^ 63" using r by (simp_all add: abs_if split: if_splits)
  then have t: "- (2 ^ 63) \<le> trunc r" "trunc r < 2 ^ 63"
    unfolding trunc_def by (auto simp: le_floor_iff floor_less_iff ceiling_less_iff le_ceiling_iff)
  have "sint (word_of_int (trunc r) :: 64 word) = signed_take_bit 63 (trunc r)"
    by (simp add: sint_sbintrunc')
  also have "\<dots> = trunc r" using t by (intro signed_take_bit_int_eq_self) simp_all
  finally have "sint (i64_of_dbl (Fin r)) = trunc r" using t by simp
  then show ?thesis unfolding to_satoshis_def d r_def .
qed

text \<open>The amount \<open>0.3\<close> makes 30,000,000 units: the product of the two doubles rounds to
  the whole number.\<close>

lemma to_satoshis_03: "sint (to_satoshis (lit (3 / 10))) = 30000000"
proof -
  have l: "round_dbl (3 / 10) = 5404319552844595 / 18014398509481984" by code_simp
  have p: "round_dbl (5404319552844595 / 18014398509481984 * 100000000) = 30000000" by code_simp
  have "\<bar>5404319552844595 / 18014398509481984 :: real\<bar> \<le> DBL_MAX"
    using two_pow_le_DBL_MAX [of 0] by simp
  then have "lit (3 / 10) = Fin (5404319552844595 / 18014398509481984)"
    unfolding lit_def round_to_dbl_def l by (rule dbl_of_real_in_range)
  moreover have "sint (to_satoshis (Fin (5404319552844595 / 18014398509481984)))
      = trunc (round_dbl (5404319552844595 / 18014398509481984 * 100000000))"
    by (rule to_satoshis_finite) (simp only: p, simp)
  ultimately show ?thesis by (simp only: p) (simp add: trunc_def)
qed

lemma addBlock_adds:
  "fst (addBlock now b bc) = Inr True \<Longrightarrow>
   bc_totalMinedCoins (snd (addBlock now b bc)) = bc_totalMinedCoins bc + to_satoshis (reward b)"
  by (auto simp: addBlock_def split: if_splits sum.splits bool.splits)

lemma bc_getTotalMinedCoins_value:
  "bc_getTotalMinedCoins bc
     = Fin (min (round_dbl (round_dbl (real_of_int (sint (bc_totalMinedCoins bc))) / 100000000)) 3000000)"
proof -
  define x where "x = real_of_int (sint (bc_totalMinedCoins bc))"
  have "sint (bc_totalMinedCoins bc) < 2 ^ 63" "- (2 ^ 63) \<le> sint (bc_totalMinedCoins bc)"
    using sint_lt [of "bc_totalMinedCoins bc"] sint_ge [of "bc_totalMinedCoins bc"] by simp_all
  then have "real_of_int (sint (bc_totalMinedCoins bc)) < real_of_int (2 ^ 63)"
    "real_of_int (- (2 ^ 63)) \<le> real_of_int (sint (bc_totalMinedCoins bc))"
    by (simp_all only: of_int_less_iff of_int_le_iff)
  then have x: "\<bar>x\<bar> \<le> 2 ^ 63" unfolding x_def by simp
  have big: "(2::real) ^ 66 \<le> DBL_MAX" by (simp add: DBL_MAX_def)
  have "2 * \<bar>x\<bar> \<le> DBL_MAX" using x big by simp
  then have c: "round_to_dbl x = Fin (round_dbl x)" by (rule round_to_dbl_bounded)
  have rx: "\<bar>round_dbl x\<bar> \<le> 2 ^ 64" using round_dbl_abs_le [of x] x by simp
  then have "\<bar>round_dbl x / 100000000\<bar> \<le> 2 ^ 64" by (simp add: field_simps abs_if split: if_splits)
  then have "2 * \<bar>round_dbl x / 100000000\<bar> \<le> DBL_MAX" using big by simp
  then have d: "round_to_dbl (round_dbl x / 100000000) = Fin (round_dbl (round_dbl x / 100000000))"
    by (rule round_to_dbl_bounded)
  have "bc_getTotalMinedCoins bc = dmin (ddiv_r (round_to_dbl x) (Fin 100000000)) (Fin 3000000)"
    unfolding bc_getTotalMinedCoins_def dbl_of_i64_def x_def Let_def ..
  also have "\<dots> = dmin (Fin (round_dbl (round_dbl x / 100000000))) (Fin 3000000)"
    by (simp add: c d)
  also have "\<dots> = Fin (min (round_dbl (round_dbl x / 100000000)) 3000000)"
    by (simp add: dmin_def min_def)
  finally show ?thesis by (simp only: x_def)
qed


text \<open>
  Claim C2, amended. Whatever the state and the amount, \<open>addMinedCoins\<close> leaves the
  counter of the \<open>MiningManager\<close> at or below the cap of 3,000,000 coins
  (\<open>3 * 10\<^sup>1\<^sup>4\<close> units), so every sequence of calls on a new manager does; where the
  64-bit sum of the counter and the amount in units does not overflow, the counter it
  leaves is the lesser of that sum and the cap; and the amount in units is the rounded
  double product \<open>amount * 10\<^sup>8\<close>, truncated. The ledger's counter is not capped where it
  is written: an accepted block adds its reward in units to it, with wrap-around. It is
  capped where it is read: \<open>Blockchain::getTotalMinedCoins\<close> returns the lesser of the
  counter divided by \<open>10\<^sup>8\<close>, in double arithmetic, and 3,000,000.
\<close>

theorem mined_coins_capped:
  "sint (totalMinedCoins (addMinedCoins a m)) \<le> 300000000000000
   \<and> sint (totalMinedCoins (addMinedCoins_all as new_MiningManager)) \<le> 300000000000000
   \<and> (- (2 ^ 63) \<le> sint (totalMinedCoins m) + sint (to_satoshis a)
        \<and> sint (totalMinedCoins m) + sint (to_satoshis a) < 2 ^ 63 \<longrightarrow>
        sint (totalMinedCoins (addMinedCoins a m))
          = min (sint (totalMinedCoins m) + sint (to_satoshis a)) 300000000000000)
   \<and> (\<bar>round_dbl (x * 100000000)\<bar> < 2 ^ 63 \<longrightarrow>
        sint (to_satoshis (Fin x)) = trunc (round_dbl (x * 100000000)))
   \<and> (fst (addBlock now b bc) = Inr True \<longrightarrow>
        bc_totalMinedCoins (snd (addBlock now b bc)) = bc_totalMinedCoins bc + to_satoshis (reward b))
   \<and> bc_getTotalMinedCoins bc
       = Fin (min (round_dbl (round_dbl (real_of_int (sint (bc_totalMinedCoins bc))) / 100000000))
                  3000000)"
proof -
  have "sint (totalMinedCoins new_MiningManager) \<le> sint maxSatoshis"
    by (simp add: new_MiningManager_def sint_maxSatoshis)
  then have "sint (totalMinedCoins (addMinedCoins_all as new_MiningManager)) \<le> sint maxSatoshis"
    by (rule addMinedCoins_all_capped)
  then have seq: "sint (totalMinedCoins (addMinedCoins_all as new_MiningManager)) \<le> 300000000000000"
    by (simp add: sint_maxSatoshis)
  have one: "sint (totalMinedCoins (addMinedCoins a m)) \<le> 300000000000000"
    using addMinedCoins_capped [of a m] by (simp add: sint_maxSatoshis)
  show ?thesis
    using one seq addMinedCoins_saturates [of m a] to_satoshis_finite [of x]
      addBlock_adds [of now b bc] bc_getTotalMinedCoins_value [of bc]
    by blast
qed

theorem mined_coins_capped_witness:
  "sint (totalMinedCoins (addMinedCoins (Fin 50) new_MiningManager)) = 5000000000
   \<and> sint (totalMinedCoins (addMinedCoins (Fin 50) (new_MiningManager\<lparr>totalMinedCoins := 299999999999999\<rparr>)))
       = 300000000000000
   \<and> sint (to_satoshis (Fin 50)) = 5000000000
   \<and> bc_totalMinedCoins (snd (addBlock 0 bigBlock (new_Blockchain (\<lambda>d i. d) 0 ''k'')))
       = 400000000000000"
proof -
  have s50: "to_satoshis (Fin 50) = 5000000000"
    using to_satoshis_whole [of 50] by simp
  have r50: "round_dbl (50 * 100000000) = 5000000000"
    using round_dbl_of_int [of 5000000000] by simp
  have t0: "totalMinedCoins new_MiningManager = 0"
    by (simp add: new_MiningManager_def)
  have ok: "fst (addBlock 0 bigBlock (new_Blockchain (\<lambda>d i. d) 0 ''k'')) = Inr True"
    by (simp add: addBlock_big)
  have z: "bc_totalMinedCoins (new_Blockchain (\<lambda>d i. d) 0 ''k'') = 0"
    by (simp add: new_Blockchain_def Let_def)
  have r: "reward bigBlock = Fin 4000000" by (simp add: bigBlock_def)
  show ?thesis
    using mined_coins_capped [of "Fin 50" new_MiningManager "[]" 50 0 bigBlock
        "new_Blockchain (\<lambda>d i. d) 0 ''k''"]
      mined_coins_capped [of "Fin 50" "new_MiningManager\<lparr>totalMinedCoins := 299999999999999\<rparr>"
        "[]" 50 0 bigBlock "new_Blockchain (\<lambda>d i. d) 0 ''k''"]
      ok
    by (simp add: s50 r50 t0 z r big_amount trunc_def)
qed

subsection \<open>Authentication and balance queries\<close>

definition authenticateUser :: "string \<Rightarrow> string \<Rightarrow> Blockchain \<Rightarrow> bool" where
  "authenticateUser account authToken bc =
     (if account = [] then False
      else if account = founderStealthAddress bc \<and> authToken \<noteq> [] then True
      else authToken \<noteq> [] \<and> str_find ''_v11_'' authToken \<noteq> None)"

definition isHiddenAddress :: "string \<Rightarrow> Blockchain \<Rightarrow> bool" where
  "isHiddenAddress address bc = (hiddenBalances bc address \<noteq> None)"

text \<open>\<open>Blockchain::getBalance\<close>; \<open>std::optional<double>\<close> is \<open>dbl option\<close>.\<close>

definition getBalance :: "string \<Rightarrow> string \<Rightarrow> Blockchain \<Rightarrow> dbl option" where
  "getBalance account authToken bc =
     (if isHiddenAddress account bc then
        (if \<not> authenticateUser account authToken bc then None
         else case hiddenBalances bc account of Some v \<Rightarrow> Some v | None \<Rightarrow> None)
      else if \<not> authenticateUser account authToken bc then None
      else case balances bc account of Some v \<Rightarrow> Some v | None \<Rightarrow> Some (Fin 0))"

text \<open>A ledger for evaluating the operations: the constructor run with the identity in
  place of the digest, which no operation looks into.\<close>

definition sampleLedger :: Blockchain where
  "sampleLedger = new_Blockchain (\<lambda>data shard. data) 0 ''pk''"

lemma sampleLedger_founder: "founderStealthAddress sampleLedger = ''pk_stealth_founder''"
  by (simp add: sampleLedger_def new_Blockchain_def Let_def)

lemma sampleLedger_hidden:
  "hiddenBalances sampleLedger = [''pk_stealth_founder'' \<mapsto> Fin 2000000]"
  by (simp add: sampleLedger_def new_Blockchain_def Let_def)

lemma sampleLedger_balances: "balances sampleLedger = Map.empty"
  by (simp add: sampleLedger_def new_Blockchain_def Let_def)

text \<open>
  Claim C5, as stated, fails at the empty account: it is not the founder's stealth address
  and the token \<open>a_v11_b\<close> carries the marker, yet \<open>authenticateUser\<close> rejects it, by its
  first test \<open>account.empty()\<close>.
\<close>

theorem authenticateUser_empty_account:
  "[] \<noteq> founderStealthAddress sampleLedger
   \<and> str_find ''_v11_'' ''a_v11_b'' \<noteq> None
   \<and> \<not> authenticateUser [] ''a_v11_b'' sampleLedger"
  by (simp add: authenticateUser_def sampleLedger_founder)

text \<open>
  Claim C5, amended. \<open>authenticateUser\<close> rejects every empty token and every empty
  account; for a non-empty account other than the founder's stealth address it accepts a
  token if and only if the token contains \<open>_v11_\<close>; for the founder's stealth address, when
  that is not the empty string, it accepts every non-empty token.
\<close>

theorem authenticateUser_rule:
  "\<not> authenticateUser account [] bc
   \<and> \<not> authenticateUser [] authToken bc
   \<and> (account \<noteq> [] \<and> account \<noteq> founderStealthAddress bc \<longrightarrow>
        authenticateUser account authToken bc = (\<exists>a b. authToken = a @ ''_v11_'' @ b))
   \<and> (account \<noteq> [] \<and> account = founderStealthAddress bc \<and> authToken \<noteq> [] \<longrightarrow>
        authenticateUser account authToken bc)"
proof -
  have "(\<exists>a b. authToken = a @ ''_v11_'' @ b) \<Longrightarrow> authToken \<noteq> []" by auto
  then show ?thesis
    unfolding authenticateUser_def str_find_occurs by auto
qed

theorem authenticateUser_rule_witness:
  "authenticateUser ''alice'' ''tok_v11_0'' sampleLedger
   \<and> \<not> authenticateUser ''alice'' ''password'' sampleLedger
   \<and> authenticateUser ''pk_stealth_founder'' ''password'' sampleLedger"
proof -
  have t: "\<exists>a b. ''tok_v11_0'' = a @ ''_v11_'' @ b"
    unfolding str_find_occurs [symmetric] by simp
  have n: "\<not> (\<exists>a b. ''password'' = a @ ''_v11_'' @ b)"
    unfolding str_find_occurs [symmetric] by simp
  have p: "''alice'' \<noteq> [] \<and> ''alice'' \<noteq> founderStealthAddress sampleLedger"
    by (simp add: sampleLedger_founder)
  have q: "''pk_stealth_founder'' \<noteq> []
    \<and> ''pk_stealth_founder'' = founderStealthAddress sampleLedger \<and> ''password'' \<noteq> []"
    by (simp add: sampleLedger_founder)
  show ?thesis
    using authenticateUser_rule [of "''alice''" sampleLedger "''tok_v11_0''"]
      authenticateUser_rule [of "''alice''" sampleLedger "''password''"]
      authenticateUser_rule [of "''pk_stealth_founder''" sampleLedger "''password''"] t n p q
    by blast
qed

text \<open>
  Claim C4. In every ledger state: on a hidden address \<open>getBalance\<close> returns nothing when
  the token does not authenticate and the stored hidden balance when it does; on a public
  address it returns nothing when the token does not authenticate; and with an
  authenticating token on a public address that the public store does not hold it returns
  the value zero, not absence.
\<close>

theorem getBalance_cases:
  "(isHiddenAddress account bc \<and> \<not> authenticateUser account authToken bc \<longrightarrow>
      getBalance account authToken bc = None)
   \<and> (isHiddenAddress account bc \<and> authenticateUser account authToken bc \<longrightarrow>
        getBalance account authToken bc = hiddenBalances bc account
        \<and> getBalance account authToken bc \<noteq> None)
   \<and> (\<not> isHiddenAddress account bc \<and> \<not> authenticateUser account authToken bc \<longrightarrow>
        getBalance account authToken bc = None)
   \<and> (\<not> isHiddenAddress account bc \<and> authenticateUser account authToken bc
        \<and> balances bc account = None \<longrightarrow>
        getBalance account authToken bc = Some (Fin 0))"
  by (auto simp: getBalance_def isHiddenAddress_def split: option.splits)

theorem getBalance_cases_witness:
  "getBalance ''pk_stealth_founder'' [] sampleLedger = None
   \<and> getBalance ''pk_stealth_founder'' ''view'' sampleLedger = Some (Fin 2000000)
   \<and> getBalance ''bob'' ''view'' sampleLedger = None
   \<and> getBalance ''bob'' ''tok_v11_0'' sampleLedger = Some (Fin 0)"
proof -
  have h: "isHiddenAddress ''pk_stealth_founder'' sampleLedger"
    "\<not> isHiddenAddress ''bob'' sampleLedger"
    by (simp_all add: isHiddenAddress_def sampleLedger_hidden)
  have a: "\<not> authenticateUser ''pk_stealth_founder'' [] sampleLedger"
    "authenticateUser ''pk_stealth_founder'' ''view'' sampleLedger"
    "\<not> authenticateUser ''bob'' ''view'' sampleLedger"
    "authenticateUser ''bob'' ''tok_v11_0'' sampleLedger"
    by (simp_all add: authenticateUser_def sampleLedger_founder)
  show ?thesis
    using getBalance_cases [of "''pk_stealth_founder''" sampleLedger "[]"]
      getBalance_cases [of "''pk_stealth_founder''" sampleLedger "''view''"]
      getBalance_cases [of "''bob''" sampleLedger "''view''"]
      getBalance_cases [of "''bob''" sampleLedger "''tok_v11_0''"] h a
    by (simp add: sampleLedger_hidden sampleLedger_balances)
qed

subsection \<open>The price floor\<close>

definition MINIMUM_PRICE :: dbl where "MINIMUM_PRICE = Fin 600000"

text \<open>
  \<open>Blockchain::adjustCoinPrice\<close>. The shard only labels the log line. Each
  \<open>let\<close> is one assignment of the source, in its order.
\<close>

definition adjustCoinPrice :: "dbl \<Rightarrow> 64 word \<Rightarrow> int \<Rightarrow> dbl" where
  "adjustCoinPrice currentPrice blockHeight shard =
     (let growthFactor = 10005 / 10000;
          newPrice = dmul currentPrice (dpow growthFactor (unat (blockHeight mod 1000000)));
          oracleAdjustment =
            dadd (Fin 1) (dmul (dsin (dmul (dbl_of_u64 blockHeight) (Fin (1 / 100)))) (Fin (1 / 1000)));
          oracleAdjustment = (if dlt oracleAdjustment (Fin 1) then Fin 1 else oracleAdjustment);
          newPrice = dmul newPrice oracleAdjustment;
          newPrice = (if isinf newPrice \<or> dlt (Fin (DBL_MAX / 2)) newPrice
                      then Fin (DBL_MAX / 2) else newPrice);
          finalPrice = dmax newPrice MINIMUM_PRICE
      in finalPrice)"

lemma growth_le_DBL_MAX:
  assumes "k < 1000000"
  shows "((10005::real) / 10000) ^ k \<le> DBL_MAX"
proof -
  have "(10005::real) / 10000 = 1 + 5 / 10000" by simp
  also have "\<dots> \<le> exp (5 / 10000)" by (rule exp_ge_add_one_self)
  finally have "((10005::real) / 10000) ^ k \<le> exp (5 / 10000) ^ k"
    by (intro power_mono) simp_all
  also have "\<dots> \<le> exp (5 / 10000) ^ 1000000"
    using assms by (intro power_increasing) simp_all
  also have "\<dots> = exp (of_nat 1000000 * (5 / 10000))"
    by (simp only: exp_of_nat_mult)
  also have "\<dots> = exp (of_nat 500 * 1)" by simp
  also have "\<dots> = exp 1 ^ 500" by (simp only: exp_of_nat_mult)
  also have "\<dots> \<le> 3 ^ 500" by (intro power_mono exp_le) simp
  also have "\<dots> \<le> DBL_MAX" by (simp add: DBL_MAX_def)
  finally show ?thesis .
qed

text \<open>A price is \<^emph>\<open>sound\<close> when it is a finite non-negative value or plus infinity.\<close>

fun nonneg :: "dbl \<Rightarrow> bool" where
  "nonneg (Fin a) = (0 \<le> a)"
| "nonneg PInf = True"
| "nonneg _ = False"

lemma dbl_of_real_nonneg: "0 \<le> r \<Longrightarrow> nonneg (dbl_of_real r)"
  using DBL_MAX_pos by (simp add: dbl_of_real_def)

lemma dmul_nonneg: "nonneg x \<Longrightarrow> 0 < b \<Longrightarrow> nonneg (dmul x (Fin b))"
  by (cases x) (simp_all add: dbl_of_real_nonneg)

lemma dmax_Fin: "dmax (Fin a) (Fin b) = Fin (max a b)"
  by (simp add: dmax_def max_def)

lemma floor_clamp:
  assumes "nonneg x"
  shows "\<exists>r. dmax (if isinf x \<or> dlt (Fin (DBL_MAX / 2)) x then Fin (DBL_MAX / 2) else x)
               (Fin 600000) = Fin r \<and> 600000 \<le> r"
proof -
  have "\<exists>c. (if isinf x \<or> dlt (Fin (DBL_MAX / 2)) x then Fin (DBL_MAX / 2) else x) = Fin c"
  proof (cases "isinf x \<or> dlt (Fin (DBL_MAX / 2)) x")
    case True
    then show ?thesis by (simp only: if_True) blast
  next
    case False
    then obtain a where "x = Fin a" using assms by (cases x) simp_all
    with False show ?thesis by (simp only: if_False) blast
  qed
  then obtain c where
    "(if isinf x \<or> dlt (Fin (DBL_MAX / 2)) x then Fin (DBL_MAX / 2) else x) = Fin c" ..
  then have "dmax (if isinf x \<or> dlt (Fin (DBL_MAX / 2)) x then Fin (DBL_MAX / 2) else x)
               (Fin 600000) = Fin (max c 600000)"
    by (simp only: dmax_Fin)
  moreover have "600000 \<le> max c 600000" by simp
  ultimately show ?thesis by blast
qed

lemma oracle_ge_1:
  "\<exists>b. (let oracleAdjustment =
            dadd (Fin 1) (dmul (dsin (dmul (dbl_of_u64 h) (Fin (1 / 100)))) (Fin (1 / 1000)))
        in if dlt oracleAdjustment (Fin 1) then Fin 1 else oracleAdjustment) = Fin b \<and> 1 \<le> b"
proof -
  have "real (unat h) < 2 ^ 64"
  proof -
    have "unat h < 2 ^ 64" using unsigned_less [of h, where 'a = nat] by simp
    then have "real (unat h) < real (2 ^ 64)" by (simp only: of_nat_less_iff)
    then show ?thesis by simp
  qed
  moreover have "0 \<le> real (unat h)" by (rule of_nat_0_le_iff)
  ultimately have "\<bar>real (unat h) * (1 / 100)\<bar> \<le> 2 ^ 64"
    unfolding abs_mult by simp
  moreover have "(2::real) ^ 64 \<le> DBL_MAX" by (simp add: DBL_MAX_def)
  ultimately have "\<bar>real (unat h) * (1 / 100)\<bar> \<le> DBL_MAX" by linarith
  then have a: "dmul (dbl_of_u64 h) (Fin (1 / 100)) = Fin (real (unat h) * (1 / 100))"
    unfolding dbl_of_u64_def dmul.simps by (rule dbl_of_real_in_range)
  define y where "y = sin (real (unat h) * (1 / 100))"
  have yb: "\<bar>y\<bar> \<le> 1" unfolding y_def by (rule abs_sin_le_one)
  have one: "(1::real) \<le> DBL_MAX" "(2::real) \<le> DBL_MAX" by (simp_all add: DBL_MAX_def)
  have "\<bar>y * (1 / 1000)\<bar> \<le> 1" using yb by (simp add: abs_mult)
  then have b: "dmul (Fin y) (Fin (1 / 1000)) = Fin (y * (1 / 1000))"
    unfolding dmul.simps using one by (intro dbl_of_real_in_range) linarith
  have "\<bar>1 + y * (1 / 1000)\<bar> \<le> 2" using yb by (simp add: abs_if split: if_splits)
  then have c: "dadd (Fin 1) (Fin (y * (1 / 1000))) = Fin (1 + y * (1 / 1000))"
    unfolding dadd.simps using one by (intro dbl_of_real_in_range) linarith
  have "dadd (Fin 1) (dmul (dsin (dmul (dbl_of_u64 h) (Fin (1 / 100)))) (Fin (1 / 1000)))
      = Fin (1 + y * (1 / 1000))"
    unfolding a dsin.simps y_def [symmetric] b c ..
  then have "(let oracleAdjustment =
            dadd (Fin 1) (dmul (dsin (dmul (dbl_of_u64 h) (Fin (1 / 100)))) (Fin (1 / 1000)))
        in if dlt oracleAdjustment (Fin 1) then Fin 1 else oracleAdjustment)
      = Fin (max (1 + y * (1 / 1000)) 1)"
    by (simp add: Let_def max_def)
  moreover have "1 \<le> max (1 + y * (1 / 1000)) 1" by simp
  ultimately show ?thesis by blast
qed

text \<open>
  Claim C1. For every finite price \<open>p \<ge> 0\<close>, every block height and every shard,
  \<open>adjustCoinPrice\<close> returns a finite value of at least 600000: the product may overflow
  to infinity, the overflow protection replaces that by \<open>DBL_MAX / 2\<close>, and the final
  \<open>std::max\<close> with the minimum price is applied on every path.
\<close>

theorem adjustCoinPrice_floor:
  assumes "0 \<le> p"
  shows "\<exists>r. adjustCoinPrice (Fin p) h s = Fin r \<and> 600000 \<le> r"
proof -
  have "unat (h mod 1000000) < 1000000"
    by (simp add: unat_mod)
  then have g: "dpow (10005 / 10000) (unat (h mod 1000000))
      = Fin ((10005 / 10000) ^ unat (h mod 1000000))"
    unfolding dpow_def using growth_le_DBL_MAX [of "unat (h mod 1000000)"]
    by (intro dbl_of_real_in_range) simp
  have n1: "nonneg (dmul (Fin p) (dpow (10005 / 10000) (unat (h mod 1000000))))"
    unfolding g dmul.simps using assms by (intro dbl_of_real_nonneg) simp
  obtain b where b: "(let oracleAdjustment =
            dadd (Fin 1) (dmul (dsin (dmul (dbl_of_u64 h) (Fin (1 / 100)))) (Fin (1 / 1000)))
        in if dlt oracleAdjustment (Fin 1) then Fin 1 else oracleAdjustment) = Fin b"
    and b1: "1 \<le> b"
    using oracle_ge_1 [of h] by blast
  have n2: "nonneg (dmul (dmul (Fin p) (dpow (10005 / 10000) (unat (h mod 1000000)))) (Fin b))"
    using n1 b1 by (intro dmul_nonneg) simp_all
  have "adjustCoinPrice (Fin p) h s =
     (let newPrice = dmul (dmul (Fin p) (dpow (10005 / 10000) (unat (h mod 1000000)))) (Fin b)
      in dmax (if isinf newPrice \<or> dlt (Fin (DBL_MAX / 2)) newPrice
               then Fin (DBL_MAX / 2) else newPrice) (Fin 600000))"
    unfolding adjustCoinPrice_def MINIMUM_PRICE_def b [symmetric] by (simp only: Let_def)
  then show ?thesis using floor_clamp [OF n2] by (simp only: Let_def)
qed

theorem adjustCoinPrice_floor_witness:
  "(0::real) \<le> 599999 \<and> (\<exists>r. adjustCoinPrice (Fin 599999) 0 0 = Fin r \<and> 600000 \<le> r)"
  using adjustCoinPrice_floor [of 599999 0 0] by simp

section \<open>Mining: difficulty adjustment\<close>

text \<open>\<open>a <= b\<close> on doubles: false as soon as one side is a NaN.\<close>

definition dle :: "dbl \<Rightarrow> dbl \<Rightarrow> bool" where
  "dle a b = (a \<noteq> NaN \<and> b \<noteq> NaN \<and> \<not> dlt b a)"

text \<open>
  \<open>MiningManager::adjustDifficulty\<close> of \<open>quantumpulse_mining_v7.h\<close>, the class the ledger
  holds. The ratio is the rounded quotient of the two doubles, and the four thresholds
  are the doubles that the literals denote. \<open>currentDifficulty_\<close> is an \<open>int\<close>; it stays
  within \<open>[1, 512]\<close>, far from the bounds of its type.
\<close>

definition adjustDifficulty :: "dbl \<Rightarrow> dbl \<Rightarrow> MiningManager \<Rightarrow> MiningManager" where
  "adjustDifficulty actualBlockTime targetBlockTime m =
     (if dle targetBlockTime (Fin 0) then m
      else let ratio = ddiv_r actualBlockTime targetBlockTime in
        if dlt ratio (lit 0.5) then
          m\<lparr>currentDifficulty := min (currentDifficulty m + 2) MAX_DIFFICULTY\<rparr>
        else if dlt ratio (lit 0.8) then
          m\<lparr>currentDifficulty := min (currentDifficulty m + 1) MAX_DIFFICULTY\<rparr>
        else if dlt (lit 2.0) ratio then
          m\<lparr>currentDifficulty := max (currentDifficulty m - 2) MIN_DIFFICULTY\<rparr>
        else if dlt (lit 1.5) ratio then
          m\<lparr>currentDifficulty := max (currentDifficulty m - 1) MIN_DIFFICULTY\<rparr>
        else m)"

text \<open>The managers a program can build: the constructor, then any calls of
  \<open>adjustDifficulty\<close> and \<open>addMinedCoins\<close>, the two methods that write a field.\<close>

inductive mm_reachable :: "MiningManager \<Rightarrow> bool" where
  mm_new: "mm_reachable new_MiningManager"
| mm_adjust: "mm_reachable m \<Longrightarrow> mm_reachable (adjustDifficulty actual target m)"
| mm_add: "mm_reachable m \<Longrightarrow> mm_reachable (addMinedCoins coins m)"

text \<open>The stepped rule of the specification, on a real ratio.\<close>

definition ratio_step :: "real \<Rightarrow> int" where
  "ratio_step r = (if r < 0.5 then 2 else if r < 0.8 then 1 else if 2.0 < r then - 2
             else if 1.5 < r then - 1 else 0)"

definition clamp :: "int \<Rightarrow> int" where
  "clamp d = max MIN_DIFFICULTY (min MAX_DIFFICULTY d)"

lemma lit_values:
  "lit (1 / 2) = Fin (1 / 2)" "lit 2 = Fin 2" "lit (3 / 2) = Fin (3 / 2)"
  "lit (4 / 5) = Fin (round_dbl (4 / 5))"
proof -
  have r: "round_dbl (1 / 2) = 1 / 2" "round_dbl 2 = 2" "round_dbl (3 / 2) = 3 / 2"
    by code_simp+
  have "(2::real) \<le> DBL_MAX" by (simp add: DBL_MAX_def)
  then show "lit (1 / 2) = Fin (1 / 2)" "lit 2 = Fin 2" "lit (3 / 2) = Fin (3 / 2)"
    "lit (4 / 5) = Fin (round_dbl (4 / 5))"
    by (simp_all add: lit_def round_to_dbl_def r round_dbl_08 dbl_of_real_in_range)
qed

lemma DBL_MAX_big: "2 < DBL_MAX"
  by (simp add: DBL_MAX_def)

lemma adjustDifficulty_range:
  assumes "MIN_DIFFICULTY \<le> currentDifficulty m" and "currentDifficulty m \<le> MAX_DIFFICULTY"
  shows "MIN_DIFFICULTY \<le> currentDifficulty (adjustDifficulty x y m)
    \<and> currentDifficulty (adjustDifficulty x y m) \<le> MAX_DIFFICULTY"
  using assms
  by (simp add: adjustDifficulty_def Let_def MIN_DIFFICULTY_def MAX_DIFFICULTY_def)

lemma mm_reachable_range:
  "mm_reachable m \<Longrightarrow> MIN_DIFFICULTY \<le> currentDifficulty m \<and> currentDifficulty m \<le> MAX_DIFFICULTY"
proof (induction rule: mm_reachable.induct)
  case mm_new
  show ?case
    by (simp add: new_MiningManager_def DEFAULT_DIFFICULTY_def MIN_DIFFICULTY_def MAX_DIFFICULTY_def)
next
  case (mm_adjust m actual target)
  then show ?case using adjustDifficulty_range by blast
next
  case (mm_add m coins)
  then show ?case by (simp add: addMinedCoins_def Let_def)
qed

lemma adjust_by_ratio:
  assumes "1 \<le> currentDifficulty m" and "currentDifficulty m \<le> 512"
    and "x = Fin (round_dbl q) \<or> (x = PInf \<and> 2 < round_dbl q) \<or> (x = NInf \<and> round_dbl q < 0)"
  shows "currentDifficulty
      (if dlt x (lit 0.5) then
          m\<lparr>currentDifficulty := min (currentDifficulty m + 2) MAX_DIFFICULTY\<rparr>
        else if dlt x (lit 0.8) then
          m\<lparr>currentDifficulty := min (currentDifficulty m + 1) MAX_DIFFICULTY\<rparr>
        else if dlt (lit 2.0) x then
          m\<lparr>currentDifficulty := max (currentDifficulty m - 2) MIN_DIFFICULTY\<rparr>
        else if dlt (lit 1.5) x then
          m\<lparr>currentDifficulty := max (currentDifficulty m - 1) MIN_DIFFICULTY\<rparr>
        else m) = clamp (currentDifficulty m + ratio_step (round_dbl q))"
proof -
  define r where "r = round_dbl q"
  have l08: "r < round_dbl (4 / 5) \<longleftrightarrow> r < 4 / 5" unfolding r_def by (rule less_08)
  consider (fin) "x = Fin r" | (pinf) "x = PInf" "2 < r" | (ninf) "x = NInf" "r < 0"
    using assms(3) unfolding r_def by blast
  then show ?thesis
  proof cases
    case fin
    then show ?thesis using assms(1,2) unfolding r_def [symmetric]
      by (simp add: lit_values l08 ratio_step_def clamp_def MIN_DIFFICULTY_def MAX_DIFFICULTY_def
          max_def min_def)
  next
    case pinf
    then show ?thesis using assms(1,2) unfolding r_def [symmetric]
      by (simp add: lit_values ratio_step_def clamp_def MIN_DIFFICULTY_def MAX_DIFFICULTY_def
          max_def min_def)
  next
    case ninf
    then show ?thesis using assms(1,2) unfolding r_def [symmetric]
      by (simp add: lit_values ratio_step_def clamp_def MIN_DIFFICULTY_def MAX_DIFFICULTY_def
          max_def min_def)
  qed
qed

lemma adjustDifficulty_stepped:
  assumes "0 < t" and "MIN_DIFFICULTY \<le> currentDifficulty m" and "currentDifficulty m \<le> MAX_DIFFICULTY"
  shows "currentDifficulty (adjustDifficulty (Fin a) (Fin t) m)
    = clamp (currentDifficulty m + ratio_step (round_dbl (a / t)))"
proof -
  have g: "\<not> dle (Fin t) (Fin 0)" using assms(1) by (simp add: dle_def)
  have d: "1 \<le> currentDifficulty m" "currentDifficulty m \<le> 512"
    using assms(2,3) by (simp_all add: MIN_DIFFICULTY_def MAX_DIFFICULTY_def)
  have q: "ddiv_r (Fin a) (Fin t) = dbl_of_real (round_dbl (a / t))"
    using assms(1) by (simp add: round_to_dbl_def)
  have "ddiv_r (Fin a) (Fin t) = Fin (round_dbl (a / t))
    \<or> (ddiv_r (Fin a) (Fin t) = PInf \<and> 2 < round_dbl (a / t))
    \<or> (ddiv_r (Fin a) (Fin t) = NInf \<and> round_dbl (a / t) < 0)"
    unfolding q dbl_of_real_def using DBL_MAX_big by auto
  from adjust_by_ratio [OF d this] show ?thesis
    unfolding adjustDifficulty_def Let_def using g by (simp only: if_False)
qed

lemma adjustDifficulty_guard: "t \<le> 0 \<Longrightarrow> adjustDifficulty (Fin a) (Fin t) m = m"
  by (simp add: adjustDifficulty_def dle_def)


lemma ratio_rounds:
  "round_dbl ((6144 + 1 / 2 ^ 39) / (4096 + 1 / 2 ^ 40)) = 3 / 2"
  by code_simp

lemma ratio_above: "(3 / 2 :: real) < (6144 + 1 / 2 ^ 39) / (4096 + 1 / 2 ^ 40)"
  by (simp add: field_simps)

text \<open>
  Claim C8, as stated, fails in two ways. Where the target time is not positive: with an
  actual time of \<open>-150\<close> and a target of \<open>-600\<close> the ratio is 0.25, below 0.5, and the
  rule of the claim gives \<open>4 + 2 = 6\<close>; \<open>adjustDifficulty\<close> returns at its first test,
  \<open>targetBlockTime <= 0\<close>, and the difficulty stays 4. And the ratio that the code tests
  is the quotient as the double division rounds it: the ratio of the doubles
  \<open>6144 + 2\<^sup>-\<^sup>3\<^sup>9\<close> and \<open>4096 + 2\<^sup>-\<^sup>4\<^sup>0\<close> (the literals \<open>6144.000000000002\<close> and
  \<open>4096.000000000001\<close>) is above 1.5, and the rule of the claim gives \<open>4 - 1 = 3\<close>; the
  division returns exactly 1.5 and the difficulty stays 4.
\<close>

theorem adjustDifficulty_off_rule:
  "round_dbl (- 150 / - 600) = 1 / 4
   \<and> clamp (currentDifficulty new_MiningManager + ratio_step (1 / 4)) = 6
   \<and> currentDifficulty (adjustDifficulty (Fin (- 150)) (Fin (- 600)) new_MiningManager) = 4
   \<and> clamp (currentDifficulty new_MiningManager
        + ratio_step ((6144 + 1 / 2 ^ 39) / (4096 + 1 / 2 ^ 40))) = 3
   \<and> currentDifficulty
        (adjustDifficulty (Fin (6144 + 1 / 2 ^ 39)) (Fin (4096 + 1 / 2 ^ 40)) new_MiningManager) = 4"
proof -
  have q: "round_dbl (1 / 4) = 1 / 4" by code_simp
  have d: "currentDifficulty new_MiningManager = 4"
    by (simp add: new_MiningManager_def DEFAULT_DIFFICULTY_def)
  have s: "ratio_step ((6144 + 1 / 2 ^ 39) / (4096 + 1 / 2 ^ 40)) = - 1"
  proof -
    define r :: real where "r = (6144 + 1 / 2 ^ 39) / (4096 + 1 / 2 ^ 40)"
    have "3 / 2 < r" unfolding r_def by (rule ratio_above)
    moreover have "r \<le> 2" unfolding r_def by (simp add: field_simps)
    ultimately have "ratio_step r = - 1" by (simp add: ratio_step_def)
    then show ?thesis by (simp only: r_def)
  qed
  have pos: "(0::real) < 4096 + 1 / 2 ^ 40" by simp
  have "currentDifficulty
        (adjustDifficulty (Fin (6144 + 1 / 2 ^ 39)) (Fin (4096 + 1 / 2 ^ 40)) new_MiningManager)
      = clamp (currentDifficulty new_MiningManager + ratio_step (3 / 2))"
  proof -
    have lo: "MIN_DIFFICULTY \<le> currentDifficulty new_MiningManager"
      and hi: "currentDifficulty new_MiningManager \<le> MAX_DIFFICULTY"
      by (simp_all add: d MIN_DIFFICULTY_def MAX_DIFFICULTY_def)
    show ?thesis
      using adjustDifficulty_stepped [OF pos lo hi, of "6144 + 1 / 2 ^ 39"]
      by (simp only: ratio_rounds)
  qed
  then have c: "currentDifficulty
        (adjustDifficulty (Fin (6144 + 1 / 2 ^ 39)) (Fin (4096 + 1 / 2 ^ 40)) new_MiningManager) = 4"
    by (simp add: d clamp_def ratio_step_def MIN_DIFFICULTY_def MAX_DIFFICULTY_def)
  have g: "currentDifficulty (adjustDifficulty (Fin (- 150)) (Fin (- 600)) new_MiningManager) = 4"
    by (simp add: adjustDifficulty_def dle_def d)
  have a: "clamp (currentDifficulty new_MiningManager + ratio_step (1 / 4)) = 6"
    by (simp add: d clamp_def ratio_step_def MIN_DIFFICULTY_def MAX_DIFFICULTY_def)
  have b: "clamp (currentDifficulty new_MiningManager
        + ratio_step ((6144 + 1 / 2 ^ 39) / (4096 + 1 / 2 ^ 40))) = 3"
    by (simp only: s d) (simp add: clamp_def MIN_DIFFICULTY_def MAX_DIFFICULTY_def)
  show ?thesis
    using q a g b c by simp
qed

text \<open>
  Claim C8, amended. The difficulty of a \<open>MiningManager\<close> is always within \<open>[1, 512]\<close>.
  For every such manager, every finite actual time and every finite positive target time,
  \<open>adjustDifficulty\<close> applies the stepped rule to the ratio \<open>r\<close> of the two as the double
  division computes it (\<open>r < 0.5\<close> gives \<open>d + 2\<close>, \<open>r < 0.8\<close> gives \<open>d + 1\<close>, \<open>r > 2.0\<close>
  gives \<open>d - 2\<close>, \<open>r > 1.5\<close> gives \<open>d - 1\<close>, otherwise \<open>d\<close>), clamped to \<open>[1, 512]\<close>.
  When the target time is zero or negative it leaves the manager as it is.
\<close>

theorem adjustDifficulty_rule:
  assumes "mm_reachable m"
  shows "MIN_DIFFICULTY \<le> currentDifficulty m \<and> currentDifficulty m \<le> MAX_DIFFICULTY
   \<and> (0 < t \<longrightarrow>
        currentDifficulty (adjustDifficulty (Fin a) (Fin t) m)
          = clamp (currentDifficulty m + ratio_step (round_dbl (a / t))))
   \<and> (t \<le> 0 \<longrightarrow> adjustDifficulty (Fin a) (Fin t) m = m)"
  using mm_reachable_range [OF assms] adjustDifficulty_stepped [of t m a]
    adjustDifficulty_guard [of t a m]
  by blast

theorem adjustDifficulty_rule_witness:
  "currentDifficulty (adjustDifficulty (Fin 468) (Fin 600) new_MiningManager) = 5
   \<and> currentDifficulty (adjustDifficulty (Fin 100) (Fin 600) new_MiningManager) = 6
   \<and> currentDifficulty (adjustDifficulty (Fin 1500) (Fin 600) new_MiningManager) = 2
   \<and> adjustDifficulty (Fin (- 150)) (Fin (- 600)) new_MiningManager = new_MiningManager"
proof -
  have r: "round_dbl (39 / 50) = 3512807709348987 / 4503599627370496"
    "round_dbl (1 / 6) = 6004799503160661 / 36028797018963968"
    "round_dbl (5 / 2) = 5 / 2"
    by code_simp+
  have d: "currentDifficulty new_MiningManager = 4"
    by (simp add: new_MiningManager_def DEFAULT_DIFFICULTY_def)
  show ?thesis
    using adjustDifficulty_rule [OF mm_new, of 600 468] adjustDifficulty_rule [OF mm_new, of 600 100]
      adjustDifficulty_rule [OF mm_new, of 600 1500]
      adjustDifficulty_rule [OF mm_new, of "- 600" "- 150"]
    by (simp add: r d clamp_def ratio_step_def MIN_DIFFICULTY_def MAX_DIFFICULTY_def)
qed

section \<open>The set of unspent outputs\<close>

text \<open>
  \<open>UTXOutput\<close> of \<open>quantumpulse_utxo_v7.h\<close>. An amount is a double, and the balance of an
  address is the sum of doubles that the loop of \<open>getBalance\<close> computes: every addition
  rounds, in the order of the keys.
\<close>

record UTXOutput =
  u_txid :: string
  u_vout :: int
  u_address :: string
  u_amount :: dbl
  scriptPubKey :: string
  blockHeight :: int
  coinbase :: bool
  u_confirmations :: int

text \<open>
  The two indexes of \<open>UTXOSet\<close>: \<open>utxos_\<close> from the key \<open>txid:vout\<close> to the output, and
  \<open>addressUtxos_\<close> from an address to its set of keys. The methods hold \<open>mutex_\<close>
  throughout.
\<close>

record UTXOSet =
  utxos :: "string \<rightharpoonup> UTXOutput"
  addressUtxos :: "string \<rightharpoonup> string set"

definition utxo_key :: "string \<Rightarrow> int \<Rightarrow> string" where
  "utxo_key txid vout = txid @ '':'' @ to_string vout"

text \<open>\<open>addressUtxos_[a]\<close>: the stored set, the empty set when \<open>a\<close> has no entry yet.\<close>

definition keys_of :: "UTXOSet \<Rightarrow> string \<Rightarrow> string set" where
  "keys_of s a = (case addressUtxos s a of None \<Rightarrow> {} | Some ks \<Rightarrow> ks)"

definition addUTXO :: "UTXOutput \<Rightarrow> UTXOSet \<Rightarrow> UTXOSet" where
  "addUTXO utxo s =
     (let key = utxo_key (u_txid utxo) (u_vout utxo)
      in s\<lparr>utxos := (utxos s)(key \<mapsto> utxo),
           addressUtxos := (addressUtxos s)(u_address utxo \<mapsto> insert key (keys_of s (u_address utxo)))\<rparr>)"


definition getUTXO :: "string \<Rightarrow> int \<Rightarrow> UTXOSet \<Rightarrow> UTXOutput option" where
  "getUTXO txid vout s = utxos s (utxo_key txid vout)"

text \<open>\<open>getAddressUTXOs\<close> walks the \<open>std::set\<close> of keys in its order, the lexicographic
  order of the strings, and skips a key that \<open>utxos_\<close> does not hold.\<close>

definition getAddressUTXOs :: "string \<Rightarrow> UTXOSet \<Rightarrow> UTXOutput list" where
  "getAddressUTXOs address s =
     (case addressUtxos s address of
        None \<Rightarrow> []
      | Some ks \<Rightarrow> List.map_filter (utxos s) (sorted_list_of_set ks))"

definition utxo_getBalance :: "string \<Rightarrow> UTXOSet \<Rightarrow> dbl" where
  "utxo_getBalance address s =
     foldl (\<lambda>balance utxo. dadd_r balance (u_amount utxo)) (Fin 0) (getAddressUTXOs address s)"

definition getUTXOCount :: "UTXOSet \<Rightarrow> nat" where
  "getUTXOCount s = card (dom (utxos s))"

definition genesisUTXO :: UTXOutput where
  "genesisUTXO =
     \<lparr>u_txid = ''genesis_coinbase_000000000000000000000000000000000000'',
      u_vout = 0,
      u_address = ''Shankar-Lal-Khati'',
      u_amount = Fin 2000000,
      scriptPubKey = ''OP_DUP OP_HASH160 <pubKeyHash> OP_EQUALVERIFY OP_CHECKSIG'',
      blockHeight = 0,
      coinbase = True,
      u_confirmations = 999999\<rparr>"

text \<open>The constructor: \<open>addGenesisUTXO\<close> on the two empty maps.\<close>

definition new_UTXOSet :: UTXOSet where
  "new_UTXOSet = addUTXO genesisUTXO \<lparr>utxos = Map.empty, addressUtxos = Map.empty\<rparr>"












text \<open>
  The sum is exact where no addition rounds. That is so, for one, where the amounts are
  whole numbers of coins, not negative, that add up to \<open>2\<^sup>5\<^sup>3\<close> at most.
\<close>

definition whole :: "UTXOutput \<Rightarrow> bool" where
  "whole u \<longleftrightarrow> (\<exists>n::nat. u_amount u = Fin (real n))"

definition real_amount :: "UTXOutput \<Rightarrow> real" where
  "real_amount u = (case u_amount u of Fin r \<Rightarrow> r | _ \<Rightarrow> 0)"





lemma whole_sum_nat: "\<forall>u \<in> set us. whole u \<Longrightarrow> \<exists>n::nat. sum_list (map real_amount us) = real n"
proof (induction us)
  case Nil
  show ?case by (intro exI [of _ 0]) simp
next
  case (Cons u us)
  then obtain n :: nat where n: "sum_list (map real_amount us) = real n" by auto
  from Cons.prems obtain k :: nat where k: "u_amount u = Fin (real k)" by (auto simp: whole_def)
  then have "real_amount u = real k" by (simp add: real_amount_def)
  with n have "sum_list (map real_amount (u # us)) = real (k + n)" by simp
  then show ?case by blast
qed














lemma utxos_new_UTXOSet:
  "utxos new_UTXOSet
     = [''genesis_coinbase_000000000000000000000000000000000000:0'' \<mapsto> genesisUTXO]"
  by (simp add: new_UTXOSet_def addUTXO_def Let_def utxo_key_def to_string_0 genesisUTXO_def)

lemma keys_new_UTXOSet:
  "addressUtxos new_UTXOSet
     = [''Shankar-Lal-Khati'' \<mapsto> {''genesis_coinbase_000000000000000000000000000000000000:0''}]"
  by (simp add: new_UTXOSet_def addUTXO_def Let_def utxo_key_def to_string_0 genesisUTXO_def
      keys_of_def)

lemma genesis_listed: "getAddressUTXOs ''Shankar-Lal-Khati'' new_UTXOSet = [genesisUTXO]"
  unfolding getAddressUTXOs_def keys_new_UTXOSet by (simp add: utxos_new_UTXOSet)

lemma genesis_balance: "utxo_getBalance ''Shankar-Lal-Khati'' new_UTXOSet = Fin 2000000"
proof -
  have "round_to_dbl (real_of_int 2000000) = Fin (real_of_int 2000000)"
    by (rule round_to_dbl_of_int) simp
  then show ?thesis
    unfolding utxo_getBalance_def genesis_listed by (simp add: genesisUTXO_def)
qed











text \<open>
  Claim C10. A freshly constructed \<open>UTXOSet\<close> holds exactly one output, under the key
  \<open>genesis_coinbase_000000000000000000000000000000000000:0\<close>: a coinbase output with that
  txid, index 0, amount 2,000,000 and the address \<open>Shankar-Lal-Khati\<close>. So
  \<open>getUTXOCount\<close> is 1 and the balance of that address is 2,000,000 before any
  \<open>addUTXO\<close> call.
\<close>

theorem fresh_UTXOSet:
  "utxos new_UTXOSet
     = [''genesis_coinbase_000000000000000000000000000000000000:0'' \<mapsto> genesisUTXO]
   \<and> u_txid genesisUTXO = ''genesis_coinbase_000000000000000000000000000000000000''
   \<and> u_vout genesisUTXO = 0
   \<and> u_amount genesisUTXO = Fin 2000000
   \<and> u_address genesisUTXO = ''Shankar-Lal-Khati''
   \<and> coinbase genesisUTXO
   \<and> getUTXOCount new_UTXOSet = 1
   \<and> getAddressUTXOs ''Shankar-Lal-Khati'' new_UTXOSet = [genesisUTXO]
   \<and> utxo_getBalance ''Shankar-Lal-Khati'' new_UTXOSet = Fin 2000000"
proof -
  have c: "getUTXOCount new_UTXOSet = 1"
    by (simp add: getUTXOCount_def utxos_new_UTXOSet)
  show ?thesis
    using genesis_listed genesis_balance c
    by (simp add: utxos_new_UTXOSet) (simp add: genesisUTXO_def)
qed


section \<open>The transaction pool\<close>

text \<open>
  The fields of \<open>UTXO::Transaction\<close> that the pool reads: \<open>size\<close>, \<open>vsize\<close> and \<open>weight\<close>
  are \<open>int\<close>s, 32-bit words read as two's complement.
\<close>

record PoolTransaction =
  p_txid :: string
  p_fee :: dbl
  p_size :: "32 word"
  p_vsize :: "32 word"
  p_weight :: "32 word"

record MempoolEntry =
  tx :: PoolTransaction
  entryTime :: int
  feeRate :: dbl
  ancestorCount :: int
  descendantCount :: int
  modifiedFee :: dbl
  height :: int

text \<open>
  \<open>TransactionMempool\<close>: \<open>maxSize_\<close> and \<open>currentSize_\<close> are \<open>size_t\<close>, 64-bit words read
  as unsigned; an \<open>int\<close> added to them is first converted to \<open>size_t\<close> (\<open>scast\<close>), and the
  sum wraps around. \<open>feeIndex_\<close> is the sequence of the entries pushed on the priority
  queue, which no method reads.
\<close>

record TransactionMempool =
  pool_transactions :: "string \<rightharpoonup> MempoolEntry"
  maxSize :: "64 word"
  currentSize :: "64 word"
  currentHeight :: int
  feeIndex :: "(string \<times> dbl) list"

definition new_TransactionMempool :: "64 word \<Rightarrow> TransactionMempool" where
  "new_TransactionMempool maxSize' =
     \<lparr>pool_transactions = Map.empty, maxSize = maxSize', currentSize = 0, currentHeight = 0,
      feeIndex = []\<rparr>"

text \<open>The conversion of an \<open>int\<close> to \<open>double\<close>.\<close>

definition dbl_of_i32 :: "32 word \<Rightarrow> dbl" where
  "dbl_of_i32 w = Fin (real_of_int (sint w))"

text \<open>
  \<open>std::sort\<close> by ascending fee rate. Entries of equal rate may come out in any order;
  the model keeps them in the order of the map, that of their keys.
\<close>

fun insert_by_rate :: "string \<times> dbl \<Rightarrow> (string \<times> dbl) list \<Rightarrow> (string \<times> dbl) list" where
  "insert_by_rate x [] = [x]"
| "insert_by_rate x (y # ys) =
     (if dlt (snd x) (snd y) then x # y # ys else y # insert_by_rate x ys)"

definition sort_by_rate :: "(string \<times> dbl) list \<Rightarrow> (string \<times> dbl) list" where
  "sort_by_rate xs = foldl (\<lambda>acc x. insert_by_rate x acc) [] xs"

text \<open>The loop of \<open>evictLowFeeTxs\<close>: it erases entries and counts the bytes freed.\<close>

fun evict_loop ::
  "64 word \<Rightarrow> (string \<times> dbl) list \<Rightarrow> 64 word \<Rightarrow> (string \<rightharpoonup> MempoolEntry)
    \<Rightarrow> (string \<rightharpoonup> MempoolEntry)" where
  "evict_loop needed [] freed m = m"
| "evict_loop needed ((txid, rate) # rest) freed m =
     (if needed \<le> freed then m
      else case m txid of
        None \<Rightarrow> evict_loop needed rest freed m
      | Some e \<Rightarrow> evict_loop needed rest (freed + scast (p_size (tx e))) (m(txid := None)))"

text \<open>\<open>evictLowFeeTxs\<close>: the pairs of the map in key order, sorted by rate, then the loop.
  It writes \<open>transactions_\<close> only.\<close>

definition evictLowFeeTxs :: "64 word \<Rightarrow> TransactionMempool \<Rightarrow> TransactionMempool" where
  "evictLowFeeTxs needed p =
     (let sorted = sort_by_rate
            (map (\<lambda>txid. (txid, feeRate (the (pool_transactions p txid))))
                 (sorted_list_of_set (dom (pool_transactions p))))
      in p\<lparr>pool_transactions := evict_loop needed sorted 0 (pool_transactions p)\<rparr>)"

text \<open>\<open>addTransaction\<close>; \<open>now\<close> is the value of \<open>std::time(nullptr)\<close>.\<close>

definition addTransaction ::
  "int \<Rightarrow> PoolTransaction \<Rightarrow> TransactionMempool \<Rightarrow> bool \<times> TransactionMempool" where
  "addTransaction now t p =
     (if pool_transactions p (p_txid t) \<noteq> None then (False, p)
      else
        let p1 = (if maxSize p < currentSize p + scast (p_size t)
                  then evictLowFeeTxs (scast (p_size t)) p else p);
            entry = \<lparr>tx = t, entryTime = now,
                     feeRate = ddiv (p_fee t) (dbl_of_i32 (p_vsize t)),
                     ancestorCount = 0, descendantCount = 0,
                     modifiedFee = p_fee t, height = currentHeight p1\<rparr>
        in (True,
            p1\<lparr>pool_transactions := (pool_transactions p1)(p_txid t \<mapsto> entry),
               currentSize := currentSize p1 + scast (p_size t),
               feeIndex := feeIndex p1 @ [(p_txid t, feeRate entry)]\<rparr>))"

definition removeTransaction :: "string \<Rightarrow> TransactionMempool \<Rightarrow> bool \<times> TransactionMempool" where
  "removeTransaction txid p =
     (case pool_transactions p txid of
        None \<Rightarrow> (False, p)
      | Some e \<Rightarrow>
          (True,
           p\<lparr>currentSize := currentSize p - scast (p_size (tx e)),
             pool_transactions := (pool_transactions p)(txid := None)\<rparr>))"

definition getBytes :: "TransactionMempool \<Rightarrow> 64 word" where
  "getBytes p = currentSize p"

text \<open>The bytes of the transactions the pool holds.\<close>

definition held_bytes :: "TransactionMempool \<Rightarrow> int" where
  "held_bytes p = (\<Sum>txid \<in> dom (pool_transactions p). sint (p_size (tx (the (pool_transactions p txid)))))"

subsection \<open>The byte counter after an eviction\<close>

definition txA :: PoolTransaction where
  "txA = \<lparr>p_txid = ''A'', p_fee = Fin 1, p_size = 60, p_vsize = 60, p_weight = 240\<rparr>"

definition txB :: PoolTransaction where
  "txB = \<lparr>p_txid = ''B'', p_fee = Fin 2, p_size = 60, p_vsize = 60, p_weight = 240\<rparr>"

definition txBig :: PoolTransaction where
  "txBig = \<lparr>p_txid = ''C'', p_fee = Fin 1, p_size = 150, p_vsize = 150, p_weight = 600\<rparr>"

definition entryOf :: "PoolTransaction \<Rightarrow> MempoolEntry" where
  "entryOf t = \<lparr>tx = t, entryTime = 0, feeRate = ddiv (p_fee t) (dbl_of_i32 (p_vsize t)),
                ancestorCount = 0, descendantCount = 0, modifiedFee = p_fee t, height = 0\<rparr>"

lemma add_txA:
  "addTransaction 0 txA (new_TransactionMempool 100) =
     (True, \<lparr>pool_transactions = [''A'' \<mapsto> entryOf txA], maxSize = 100, currentSize = 60,
             currentHeight = 0, feeIndex = [(''A'', ddiv (Fin 1) (dbl_of_i32 60))]\<rparr>)"
  by (simp add: addTransaction_def new_TransactionMempool_def txA_def entryOf_def Let_def
      del: ddiv.simps)

lemma evict_A:
  "evictLowFeeTxs 60 \<lparr>pool_transactions = [''A'' \<mapsto> entryOf txA], maxSize = 100, currentSize = 60,
             currentHeight = 0, feeIndex = fi\<rparr>
   = \<lparr>pool_transactions = Map.empty, maxSize = 100, currentSize = 60,
             currentHeight = 0, feeIndex = fi\<rparr>"
  by (simp add: evictLowFeeTxs_def sort_by_rate_def entryOf_def txA_def del: ddiv.simps)

text \<open>
  Claim C6 on a pool with a cap of 100 bytes. After the admission of \<open>A\<close> (60 bytes) the
  admission of \<open>B\<close> (60 bytes) evicts \<open>A\<close>, and the pool holds \<open>B\<close> alone; but
  \<open>evictLowFeeTxs\<close> does not lower \<open>currentSize_\<close> as \<open>removeTransaction\<close> does, so the byte
  size the pool reports is 120, above the cap. And a transaction of 150 bytes is admitted
  to the empty pool: there is nothing to evict, and the bytes held exceed the cap.
\<close>

theorem mempool_exceeds_cap:
  "fst (addTransaction 0 txB (snd (addTransaction 0 txA (new_TransactionMempool 100))))
   \<and> pool_transactions (snd (addTransaction 0 txB (snd (addTransaction 0 txA (new_TransactionMempool 100)))))
       = [''B'' \<mapsto> entryOf txB]
   \<and> getBytes (snd (addTransaction 0 txB (snd (addTransaction 0 txA (new_TransactionMempool 100))))) = 120
   \<and> maxSize (snd (addTransaction 0 txB (snd (addTransaction 0 txA (new_TransactionMempool 100))))) = 100
   \<and> fst (addTransaction 0 txBig (new_TransactionMempool 100))
   \<and> held_bytes (snd (addTransaction 0 txBig (new_TransactionMempool 100))) = 150"
proof -
  have b: "addTransaction 0 txB \<lparr>pool_transactions = [''A'' \<mapsto> entryOf txA], maxSize = 100,
             currentSize = 60, currentHeight = 0, feeIndex = fi\<rparr>
      = (True, \<lparr>pool_transactions = [''B'' \<mapsto> entryOf txB], maxSize = 100, currentSize = 120,
             currentHeight = 0, feeIndex = fi @ [(''B'', ddiv (Fin 2) (dbl_of_i32 60))]\<rparr>)" for fi
  proof -
    have s: "p_size txB = 60" "p_txid txB = ''B''" by (simp_all add: txB_def)
    show ?thesis
      unfolding addTransaction_def s
      by (simp add: evict_A Let_def del: ddiv.simps) (simp add: txB_def entryOf_def)
  qed
  have c: "addTransaction 0 txBig (new_TransactionMempool 100)
      = (True, \<lparr>pool_transactions = [''C'' \<mapsto> entryOf txBig], maxSize = 100, currentSize = 150,
             currentHeight = 0, feeIndex = [(''C'', ddiv (Fin 1) (dbl_of_i32 150))]\<rparr>)"
    by (simp add: addTransaction_def new_TransactionMempool_def txBig_def entryOf_def Let_def
        evictLowFeeTxs_def sort_by_rate_def del: ddiv.simps)
  have h: "held_bytes \<lparr>pool_transactions = [''C'' \<mapsto> entryOf txBig], maxSize = 100, currentSize = 150,
             currentHeight = 0, feeIndex = fi\<rparr> = 150" for fi
    by (simp add: held_bytes_def entryOf_def txBig_def)
  show ?thesis
    unfolding add_txA c by (simp add: b h getBytes_def)
qed

section \<open>Transfers and the reentrancy guard\<close>

definition dsub :: "dbl \<Rightarrow> dbl \<Rightarrow> dbl" where
  "dsub a b = dadd a (dneg b)"

text \<open>\<open>m[k]\<close> of a \<open>std::map<std::string, double>\<close> read before \<open>+=\<close>: a missing entry is
  created with the value 0.\<close>

definition value_or_zero :: "dbl option \<Rightarrow> dbl" where
  "value_or_zero v = (case v of None \<Rightarrow> Fin 0 | Some x \<Rightarrow> x)"

text \<open>
  The body of \<open>Blockchain::transfer\<close>, between the construction of the guard and the
  return: it runs with \<open>chainMutex\<close> held exclusively. The shard only labels the log line.
\<close>

definition transfer_body ::
  "string \<Rightarrow> string \<Rightarrow> dbl \<Rightarrow> string \<Rightarrow> Blockchain \<Rightarrow> bool \<times> Blockchain" where
  "transfer_body fromAddr toAddr amt privateKey bc =
     (if fromAddr = [] \<or> toAddr = [] \<or> dle amt (Fin 0) then (False, bc)
      else case hiddenBalances bc fromAddr of
        Some hidden \<Rightarrow>
          (if dlt hidden amt then (False, bc)
           else if \<not> authenticateUser fromAddr privateKey bc then (False, bc)
           else
             let bc1 = bc\<lparr>hiddenBalances := (hiddenBalances bc)(fromAddr \<mapsto> dsub hidden amt)\<rparr>
             in if isHiddenAddress toAddr bc1
                then (True, bc1\<lparr>hiddenBalances := (hiddenBalances bc1)
                         (toAddr \<mapsto> dadd (value_or_zero (hiddenBalances bc1 toAddr)) amt)\<rparr>)
                else (True, bc1\<lparr>balances := (balances bc1)
                         (toAddr \<mapsto> dadd (value_or_zero (balances bc1 toAddr)) amt)\<rparr>))
      | None \<Rightarrow>
          (case balances bc fromAddr of
             None \<Rightarrow> (False, bc)
           | Some balance \<Rightarrow>
               if dlt balance amt then (False, bc)
               else
                 let bc1 = bc\<lparr>balances := (balances bc)(fromAddr \<mapsto> dsub balance amt)\<rparr>
                 in (True, bc1\<lparr>balances := (balances bc1)
                         (toAddr \<mapsto> dadd (value_or_zero (balances bc1 toAddr)) amt)\<rparr>)))"

text \<open>
  One call of \<open>transfer\<close> that no other call overlaps. The constructor of the guard throws
  when the flag is set, and then the flag stays as it was; otherwise it sets the flag, and
  the destructor clears it when the call leaves, whatever the body returned.
\<close>

definition transfer ::
  "string \<Rightarrow> string \<Rightarrow> dbl \<Rightarrow> string \<Rightarrow> int \<Rightarrow> Blockchain \<Rightarrow> (error + bool) \<times> Blockchain" where
  "transfer fromAddr toAddr amt privateKey shard bc =
     (if isTransferring bc then (Inl ReentrancyFault, bc)
      else
        let (r, bc') = transfer_body fromAddr toAddr amt privateKey (bc\<lparr>isTransferring := True\<rparr>)
        in (Inr r, bc'\<lparr>isTransferring := False\<rparr>))"

subsection \<open>Concurrent calls\<close>

text \<open>
  A thread inside \<open>transfer\<close> goes through these points, in this order: it waits for the
  exclusive lock on \<open>chainMutex\<close> (\<open>Start\<close>), holds it (\<open>Locked\<close>), has passed the guard's
  \<open>exchange(true)\<close> (\<open>Guarded\<close>), has run the body (\<open>BodyDone\<close>), has run the guard's
  destructor (\<open>Unguarded\<close>) and has released the lock and returned (\<open>Returned\<close>). When the
  \<open>exchange\<close> finds the flag set, the constructor throws (\<open>Throwing\<close>, the lock still held),
  and the exception leaves the call once the lock is released (\<open>Raised\<close>).
\<close>

datatype pc = Start | Locked | Guarded | BodyDone bool | Unguarded bool | Returned bool
  | Throwing | Raised

record call =
  c_from :: string
  c_to :: string
  c_amount :: dbl
  c_key :: string
  c_shard :: int

record system =
  ledger :: Blockchain
  chainMutex :: "nat option"
  threads :: "(call \<times> pc) list"

definition set_pc :: "nat \<Rightarrow> pc \<Rightarrow> system \<Rightarrow> system" where
  "set_pc i p sys = sys\<lparr>threads := (threads sys)[i := (fst (threads sys ! i), p)]\<rparr>"

text \<open>One atomic action of thread \<open>i\<close>; a thread that waits for the lock, or has left the
  call, or does not exist, leaves the system as it is.\<close>

definition thread_step :: "nat \<Rightarrow> system \<Rightarrow> system" where
  "thread_step i sys =
     (if length (threads sys) \<le> i then sys
      else case threads sys ! i of (c, p) \<Rightarrow>
        (case p of
           Start \<Rightarrow>
             (if chainMutex sys = None then set_pc i Locked (sys\<lparr>chainMutex := Some i\<rparr>) else sys)
         | Locked \<Rightarrow>
             (if isTransferring (ledger sys) then set_pc i Throwing sys
              else set_pc i Guarded (sys\<lparr>ledger := (ledger sys)\<lparr>isTransferring := True\<rparr>\<rparr>))
         | Guarded \<Rightarrow>
             (case transfer_body (c_from c) (c_to c) (c_amount c) (c_key c) (ledger sys) of
                (r, bc') \<Rightarrow> set_pc i (BodyDone r) (sys\<lparr>ledger := bc'\<rparr>))
         | BodyDone r \<Rightarrow>
             set_pc i (Unguarded r) (sys\<lparr>ledger := (ledger sys)\<lparr>isTransferring := False\<rparr>\<rparr>)
         | Unguarded r \<Rightarrow> set_pc i (Returned r) (sys\<lparr>chainMutex := None\<rparr>)
         | Throwing \<Rightarrow> set_pc i Raised (sys\<lparr>chainMutex := None\<rparr>)
         | Returned r \<Rightarrow> sys
         | Raised \<Rightarrow> sys))"

text \<open>A schedule names the thread that acts next, step after step.\<close>

fun run_schedule :: "nat list \<Rightarrow> system \<Rightarrow> system" where
  "run_schedule [] sys = sys"
| "run_schedule (i # sched) sys = run_schedule sched (thread_step i sys)"

text \<open>The calls \<open>cs\<close> issued together on the ledger \<open>bc\<close>.\<close>

definition concurrent_calls :: "call list \<Rightarrow> Blockchain \<Rightarrow> system" where
  "concurrent_calls cs bc = \<lparr>ledger = bc, chainMutex = None, threads = map (\<lambda>c. (c, Start)) cs\<rparr>"







lemma length_thread_step [simp]: "length (threads (thread_step i sys)) = length (threads sys)"
  by (simp add: thread_step_def set_pc_def split: prod.splits pc.splits)






lemma length_run [simp]: "length (threads (run_schedule sched sys)) = length (threads sys)"
  by (induction sched arbitrary: sys) simp_all





text \<open>A call that runs alone does what \<open>transfer\<close> says.\<close>

lemma solo_run:
  assumes "\<not> isTransferring bc"
  shows "ledger (run_schedule [0, 0, 0, 0, 0] (concurrent_calls [c] bc))
           = snd (transfer (c_from c) (c_to c) (c_amount c) (c_key c) (c_shard c) bc)
       \<and> Inr (snd (threads (run_schedule [0, 0, 0, 0, 0] (concurrent_calls [c] bc)) ! 0))
           = map_sum id Returned (fst (transfer (c_from c) (c_to c) (c_amount c) (c_key c) (c_shard c) bc))"
proof -
  obtain r bc' where b:
    "transfer_body (c_from c) (c_to c) (c_amount c) (c_key c) (bc\<lparr>isTransferring := True\<rparr>) = (r, bc')"
    by (cases "transfer_body (c_from c) (c_to c) (c_amount c) (c_key c) (bc\<lparr>isTransferring := True\<rparr>)")
  show ?thesis
    using assms b
    by (simp add: concurrent_calls_def thread_step_def set_pc_def transfer_def)
qed


subsection \<open>Two overlapping transfers\<close>












end
